theory Spec2Isabelle
  imports Complex_Main
begin

section \<open>The sprite record of \<^verbatim>\<open>main.py\<close>\<close>

text \<open>
  The exceptions the modelled functions can raise, kept apart by the statement that raises
  them: \<^verbatim>\<open>TypeError\<close> and \<^verbatim>\<open>ValueError\<close> of \<^verbatim>\<open>int()\<close> (on \<^verbatim>\<open>None\<close>, and on a string that is
  no integer literal), \<^verbatim>\<open>ValueError\<close> of \<^verbatim>\<open>math.sqrt\<close> on a negative number, \<^verbatim>\<open>ValueError\<close> of
  \<^verbatim>\<open>list.index\<close> on a value the list does not hold, \<^verbatim>\<open>OverflowError\<close> of the conversion of
  an integer to a float, \<^verbatim>\<open>ZeroDivisionError\<close> of \<^verbatim>\<open>%\<close>, and \<^verbatim>\<open>IndexError\<close> of
  \<^verbatim>\<open>new_sprite_list[index]\<close>. Whatever a call into the image library raises
  (\<^verbatim>\<open>ValueError\<close> for a box whose right edge is left of its left edge, \<^verbatim>\<open>OverflowError\<close> for
  a coordinate that is no C integer, \<^verbatim>\<open>MemoryError\<close>, ...) is \<open>PIL_error\<close> with the name of
  the exception.
\<close>

datatype error =
    TypeError
  | ValueError_int
  | ValueError_math_domain
  | ValueError_not_in_list
  | OverflowError
  | ZeroDivisionError
  | IndexError
  | PIL_error string

text \<open>
  \<^verbatim>\<open>class Sprite\<close>: the dataclass fields in their order. \<^verbatim>\<open>name\<close> is what
  \<^verbatim>\<open>sub_texture.get("name")\<close> returned, which is \<^verbatim>\<open>None\<close> for an element without
  that attribute.
\<close>

record Sprite =
  name :: "string option"
  x :: int
  y :: int
  width :: int
  height :: int
  pos_x :: int
  pos_y :: int
  rotated :: bool

text \<open>\<^verbatim>\<open>Sprite.__post_init__\<close>: the two tuple assignments swap the field pairs.\<close>

definition post_init :: "Sprite \<Rightarrow> Sprite" where
  "post_init self =
     (if rotated self
      then self\<lparr>width := height self, height := width self,
                pos_x := pos_y self, pos_y := pos_x self\<rparr>
      else self)"

text \<open>
  The constructor call \<^verbatim>\<open>Sprite(name=..., x=..., ...)\<close>: the generated \<^verbatim>\<open>__init__\<close>
  stores the arguments and then runs \<^verbatim>\<open>__post_init__\<close>.
\<close>

definition new_Sprite ::
  "string option \<Rightarrow> int \<Rightarrow> int \<Rightarrow> int \<Rightarrow> int \<Rightarrow> int \<Rightarrow> int \<Rightarrow> bool \<Rightarrow> Sprite" where
  "new_Sprite n x0 y0 w h px py r =
     post_init \<lparr>name = n, x = x0, y = y0, width = w, height = h,
                pos_x = px, pos_y = py, rotated = r\<rparr>"

text \<open>\<^verbatim>\<open>Sprite.__eq__\<close>: the six comparisons, in the order of the source.\<close>

definition sprite_eq :: "Sprite \<Rightarrow> Sprite \<Rightarrow> bool" where
  "sprite_eq self other \<longleftrightarrow>
     x self = x other \<and> y self = y other \<and>
     width self = width other \<and> height self = height other \<and>
     pos_x self = pos_x other \<and> pos_y self = pos_y other"

section \<open>Integer helpers\<close>

text \<open>
  \<^verbatim>\<open>int.bit_length()\<close>: the number of binary digits of the absolute value, 0 for 0.
\<close>

fun bits :: "nat \<Rightarrow> nat" where
  "bits n = (if n = 0 then 0 else Suc (bits (n div 2)))"

declare bits.simps [simp del]

definition bit_length :: "int \<Rightarrow> nat" where
  "bit_length i = bits (nat \<bar>i\<bar>)"

text \<open>\<^verbatim>\<open>1 if number == 0 else 2 ** (number - 1).bit_length()\<close>\<close>

definition next_power_of_two :: "int \<Rightarrow> int" where
  "next_power_of_two number =
     (if number = 0 then 1 else 2 ^ bit_length (number - 1))"

text \<open>
  \<^verbatim>\<open>next_multiple\<close>. Python's \<^verbatim>\<open>%\<close> on integers is the floored remainder, which
  is \<open>mod\<close> on \<open>int\<close>; with a zero divisor it raises where \<open>mod\<close> would return its
  first argument.
\<close>

definition next_multiple :: "int \<Rightarrow> int \<Rightarrow> error + int" where
  "next_multiple number multiple_requested =
     (if multiple_requested = 0 then Inl ZeroDivisionError
      else if number mod multiple_requested \<noteq> 0
      then Inr (number + (multiple_requested - number mod multiple_requested))
      else Inr number)"

definition SPRITE_SIZE_MULTIPLE :: int where
  "SPRITE_SIZE_MULTIPLE = 4"

section \<open>\<^verbatim>\<open>math.ceil(math.sqrt(total_area))\<close> in double precision\<close>

text \<open>
  \<^verbatim>\<open>math.sqrt\<close> converts its integer argument to a double, takes the correctly
  rounded IEEE-754 square root, and \<^verbatim>\<open>math.ceil\<close> turns the result into an exact
  integer. The doubles that occur are finite and not negative; one is written here as a
  pair \<open>(m, e)\<close> that stands for \<open>m * 2 ^ e\<close>. All three steps are computed
  with integer arithmetic, so nothing is approximated.

  \<open>round_half_even v d\<close> is \<open>v / 2 ^ d\<close> rounded to the nearest integer, a tie going to
  the even neighbour.
\<close>

definition round_half_even :: "nat \<Rightarrow> nat \<Rightarrow> nat" where
  "round_half_even v d =
     (let q = v div 2 ^ d; r = v mod 2 ^ d
      in if 2 * r > 2 ^ d \<or> (2 * r = 2 ^ d \<and> odd q) then q + 1 else q)"

text \<open>
  Integer to double: the 53 leading bits, rounded half to even. \<^verbatim>\<open>None\<close> is the
  \<^verbatim>\<open>OverflowError\<close> ("int too large to convert to float") for a value that rounds to
  \<open>2 ^ 1024\<close> or more.
\<close>

definition float_of_nat :: "nat \<Rightarrow> (nat \<times> int) option" where
  "float_of_nat n =
     (let d = bits n - 53; m = round_half_even n d
      in if m * 2 ^ d \<ge> 2 ^ 1024 then None else Some (m, int d))"

text \<open>The integer square root, rounded down, two bits of the argument at a time.\<close>

fun isqrt :: "nat \<Rightarrow> nat" where
  "isqrt n =
     (if n < 2 then n
      else (let r = 2 * isqrt (n div 4)
            in if (r + 1) * (r + 1) \<le> n then r + 1 else r))"

declare isqrt.simps [simp del]

text \<open>
  The correctly rounded square root of the double \<open>m * 2 ^ e\<close>. The exponent is made
  even, the mantissa is scaled by \<open>4 ^ 54\<close> so that its integer square root \<open>s\<close> has
  more than 53 bits, one sticky bit records whether \<open>s\<close> is exact, and the result is
  rounded to 53 bits, half to even.
\<close>

definition double_sqrt :: "nat \<times> int \<Rightarrow> nat \<times> int" where
  "double_sqrt f =
     (case f of (m, e) \<Rightarrow>
       if m = 0 then (0, 0)
       else
         let m1 = (if even e then m else 2 * m);
             e1 = e div 2;
             N = m1 * 4 ^ 54;
             s = isqrt N;
             s' = 2 * s + (if s * s = N then 0 else 1);
             d = bits s' - 53
         in (round_half_even s' d, int d + e1 - 55))"

text \<open>\<^verbatim>\<open>math.ceil\<close> of the double \<open>m * 2 ^ e\<close>, an exact integer.\<close>

definition double_ceil :: "nat \<times> int \<Rightarrow> int" where
  "double_ceil f =
     (case f of (m, e) \<Rightarrow>
       if e \<ge> 0 then int m * 2 ^ nat e else - ((- int m) div 2 ^ nat (- e)))"

text \<open>
  \<^verbatim>\<open>math.ceil(math.sqrt(a))\<close> for an integer \<open>a\<close>: the conversion to double comes
  first (and can overflow, whatever the sign), then the domain check of the square root.
\<close>

definition math_ceil_sqrt :: "int \<Rightarrow> error + int" where
  "math_ceil_sqrt a =
     (case float_of_nat (nat \<bar>a\<bar>) of
        None \<Rightarrow> Inl OverflowError
      | Some f \<Rightarrow>
          if a < 0 then Inl ValueError_math_domain
          else Inr (double_ceil (double_sqrt f)))"

section \<open>The XML elements\<close>

text \<open>
  An \<^verbatim>\<open>ElementTree\<close> element as far as the program reads it: its tag and its
  attribute dictionary. The root is given by the list of its children in document order,
  the only thing \<^verbatim>\<open>findall\<close> looks at.
\<close>

record element =
  tag :: string
  attrib :: "string \<rightharpoonup> string"

definition findall :: "element list \<Rightarrow> string \<Rightarrow> element list" where
  "findall xml_root t = filter (\<lambda>child. tag child = t) xml_root"

text \<open>Sequencing of computations that may raise: the first exception ends them.\<close>

definition bindE :: "error + 'a \<Rightarrow> ('a \<Rightarrow> error + 'b) \<Rightarrow> error + 'b" where
  "bindE m f = (case m of Inl err \<Rightarrow> Inl err | Inr v \<Rightarrow> f v)"

text \<open>
  \<^verbatim>\<open>int(sub_texture.get(key))\<close>. \<^verbatim>\<open>get\<close> returns \<^verbatim>\<open>None\<close> for a missing attribute and
  \<^verbatim>\<open>int(None)\<close> raises \<^verbatim>\<open>TypeError\<close>. Which strings Python's \<^verbatim>\<open>int\<close> accepts, and as
  which integer, is the parameter \<open>int_of\<close> (\<^verbatim>\<open>None\<close> for a string it rejects with
  \<^verbatim>\<open>ValueError\<close>): every theorem below holds for any such function.
\<close>

definition py_int :: "(string \<Rightarrow> int option) \<Rightarrow> string option \<Rightarrow> error + int" where
  "py_int int_of v =
     (case v of
        None \<Rightarrow> Inl TypeError
      | Some s \<Rightarrow> (case int_of s of None \<Rightarrow> Inl ValueError_int | Some i \<Rightarrow> Inr i))"

text \<open>\<^verbatim>\<open>int(sub_texture.get(key, 0))\<close>: a missing attribute gives \<^verbatim>\<open>int(0)\<close>.\<close>

definition py_int_default_0 :: "(string \<Rightarrow> int option) \<Rightarrow> string option \<Rightarrow> error + int" where
  "py_int_default_0 int_of v =
     (case v of None \<Rightarrow> Inr 0 | Some s \<Rightarrow> py_int int_of (Some s))"

text \<open>
  \<^verbatim>\<open>bool(sub_texture.get("rotated", False))\<close>: \<^verbatim>\<open>bool(False)\<close> for a missing attribute,
  and the truth value of a string, which is whether it is non-empty.
\<close>

definition py_bool_default_False :: "string option \<Rightarrow> bool" where
  "py_bool_default_False v = (case v of None \<Rightarrow> False | Some s \<Rightarrow> s \<noteq> [])"

text \<open>
  The constructor call that \<^verbatim>\<open>parse_sprites\<close> and \<^verbatim>\<open>update_xml_with_new_sprites\<close> both
  make for a \<^verbatim>\<open>SubTexture\<close> element. The keyword arguments are evaluated in the order
  written, so the first attribute that fails to convert decides the exception.
\<close>

definition sprite_of_element :: "(string \<Rightarrow> int option) \<Rightarrow> element \<Rightarrow> error + Sprite" where
  "sprite_of_element int_of sub_texture =
     bindE (py_int int_of (attrib sub_texture ''x'')) (\<lambda>vx.
     bindE (py_int int_of (attrib sub_texture ''y'')) (\<lambda>vy.
     bindE (py_int int_of (attrib sub_texture ''width'')) (\<lambda>vw.
     bindE (py_int int_of (attrib sub_texture ''height'')) (\<lambda>vh.
     bindE (py_int_default_0 int_of (attrib sub_texture ''frameX'')) (\<lambda>vpx.
     bindE (py_int_default_0 int_of (attrib sub_texture ''frameY'')) (\<lambda>vpy.
     Inr (new_Sprite (attrib sub_texture ''name'') vx vy vw vh vpx vpy
            (py_bool_default_False (attrib sub_texture ''rotated'')))))))))"

section \<open>\<^verbatim>\<open>parse_sprites\<close>\<close>

text \<open>
  \<^verbatim>\<open>sprite in sprite_list\<close> and \<^verbatim>\<open>sprite_list.index(sprite)\<close> compare the list's items
  with \<^verbatim>\<open>Sprite.__eq__\<close> (a freshly built sprite is identical to none of them).
  \<^verbatim>\<open>index\<close> returns the first position, and \<^verbatim>\<open>None\<close> stands for its \<^verbatim>\<open>ValueError\<close>.
\<close>

definition contains :: "Sprite list \<Rightarrow> Sprite \<Rightarrow> bool" where
  "contains sprite_list sprite = list_ex (\<lambda>item. sprite_eq item sprite) sprite_list"

fun index_of :: "Sprite list \<Rightarrow> Sprite \<Rightarrow> nat option" where
  "index_of [] sprite = None"
| "index_of (item # items) sprite =
     (if sprite_eq item sprite then Some 0 else map_option Suc (index_of items sprite))"

text \<open>
  The loop of \<^verbatim>\<open>parse_sprites\<close> over the \<^verbatim>\<open>SubTexture\<close> elements, on the state
  \<^verbatim>\<open>(sprite_list, max_width, max_height)\<close>.
\<close>

fun parse_loop ::
  "(string \<Rightarrow> int option) \<Rightarrow> element list \<Rightarrow> Sprite list \<times> int \<times> int
     \<Rightarrow> error + (Sprite list \<times> int \<times> int)" where
  "parse_loop int_of [] st = Inr st"
| "parse_loop int_of (sub_texture # rest) (sprite_list, max_width, max_height) =
     bindE (sprite_of_element int_of sub_texture) (\<lambda>sprite.
       parse_loop int_of rest
         (if \<not> contains sprite_list sprite then sprite_list @ [sprite] else sprite_list,
          max max_width (width sprite - pos_x sprite),
          max max_height (height sprite - pos_y sprite)))"

definition parse_sprites ::
  "(string \<Rightarrow> int option) \<Rightarrow> element list \<Rightarrow> error + (Sprite list \<times> int \<times> int)" where
  "parse_sprites int_of xml_root =
     bindE (parse_loop int_of (findall xml_root ''SubTexture'') ([], 0, 0))
       (\<lambda>(sprite_list, max_width, max_height).
     bindE (next_multiple max_width SPRITE_SIZE_MULTIPLE) (\<lambda>max_width'.
     bindE (next_multiple max_height SPRITE_SIZE_MULTIPLE) (\<lambda>max_height'.
     Inr (sprite_list, max_width', max_height'))))"

section \<open>\<^verbatim>\<open>create_new_spritesheet\<close>\<close>

text \<open>
  The pixel buffers stay with the image library; the model records what the function asks
  of it. A \<open>cropped\<close> value is the local \<^verbatim>\<open>image\<close> of the loop: the box cropped out of
  \<^verbatim>\<open>spritesheet_image\<close> and whether the crop was then transposed with \<^verbatim>\<open>ROTATE_90\<close>. A
  \<open>paste_op\<close> is one call of \<^verbatim>\<open>paste\<close>: what was pasted and the position handed to it.
  The new image is the size given to \<^verbatim>\<open>Image.new\<close> and the pastes made into it, oldest
  first.
\<close>

record cropped =
  crop_box :: "int \<times> int \<times> int \<times> int"
  rotate_90 :: bool

record paste_op =
  pasted :: cropped
  paste_at :: "int \<times> int"

record atlas =
  atlas_size :: "int \<times> int"
  pastes :: "paste_op list"

text \<open>
  Each of the four calls into the image library can raise instead of returning. The
  library and the source image are not part of the repository, so which calls raise is a
  parameter of the model, and every theorem below holds for any library: for each call,
  \<^verbatim>\<open>None\<close> when it returns and the name of the exception when it raises. The call may
  depend on everything it is given: \<^verbatim>\<open>Image.new("RGBA", size)\<close> on the size,
  \<^verbatim>\<open>spritesheet_image.crop(box)\<close> on the box, \<^verbatim>\<open>image.transpose(Image.ROTATE_90)\<close> on the
  crop, and \<^verbatim>\<open>new_spritesheet_image.paste(image, position)\<close> on the new image as it is
  before the call, on the pasted image and on the position.
\<close>

record image_library =
  new_raises :: "int \<times> int \<Rightarrow> string option"
  crop_raises :: "int \<times> int \<times> int \<times> int \<Rightarrow> string option"
  transpose_raises :: "cropped \<Rightarrow> string option"
  paste_raises :: "atlas \<Rightarrow> cropped \<Rightarrow> int \<times> int \<Rightarrow> string option"

definition raise_if :: "string option \<Rightarrow> error + unit" where
  "raise_if r = (case r of None \<Rightarrow> Inr () | Some exc \<Rightarrow> Inl (PIL_error exc))"

text \<open>
  The body of the loop over \<^verbatim>\<open>sprite_list\<close>, on the state
  \<^verbatim>\<open>(current_x, current_y, new_sprite_list, new_spritesheet_image)\<close>: crop (and transpose),
  wrap, build the new sprite, paste, advance. \<^verbatim>\<open>new_spritesheet_image.size[0]\<close> is the
  width the image was created with.
\<close>

definition repack_body ::
  "image_library \<Rightarrow> int \<Rightarrow> int \<Rightarrow> Sprite \<Rightarrow> int \<times> int \<times> Sprite list \<times> atlas
     \<Rightarrow> error + (int \<times> int \<times> Sprite list \<times> atlas)" where
  "repack_body lib max_width max_height sprite st =
     (case st of (current_x, current_y, new_sprite_list, new_spritesheet_image) \<Rightarrow>
       bindE
         (if rotated sprite
          then
            (let box = (x sprite, y sprite,
                        x sprite + height sprite, y sprite + width sprite)
             in bindE (raise_if (crop_raises lib box)) (\<lambda>_.
                bindE (raise_if (transpose_raises lib \<lparr>crop_box = box, rotate_90 = False\<rparr>))
                  (\<lambda>_.
                Inr \<lparr>crop_box = box, rotate_90 = True\<rparr>)))
          else
            (let box = (x sprite, y sprite,
                        x sprite + width sprite, y sprite + height sprite)
             in bindE (raise_if (crop_raises lib box)) (\<lambda>_.
                Inr \<lparr>crop_box = box, rotate_90 = False\<rparr>)))
         (\<lambda>image.
           (let wrap = (current_x + max_width > fst (atlas_size new_spritesheet_image));
                current_x = (if wrap then 0 else current_x);
                current_y = (if wrap then current_y + max_height else current_y);
                new_sprite = new_Sprite (name sprite) current_x current_y
                               max_width max_height 0 0 False
            in bindE (raise_if (paste_raises lib new_spritesheet_image image
                                  (current_x - pos_x sprite, current_y - pos_y sprite)))
                 (\<lambda>_.
               Inr (current_x + max_width, current_y,
                    new_sprite_list @ [new_sprite],
                    new_spritesheet_image
                      \<lparr>pastes := pastes new_spritesheet_image @
                         [\<lparr>pasted = image,
                           paste_at = (current_x - pos_x sprite,
                                       current_y - pos_y sprite)\<rparr>]\<rparr>)))))"

fun repack_loop ::
  "image_library \<Rightarrow> int \<Rightarrow> int \<Rightarrow> Sprite list \<Rightarrow> int \<times> int \<times> Sprite list \<times> atlas
     \<Rightarrow> error + (int \<times> int \<times> Sprite list \<times> atlas)" where
  "repack_loop lib max_width max_height [] st = Inr st"
| "repack_loop lib max_width max_height (sprite # rest) st =
     bindE (repack_body lib max_width max_height sprite st)
       (repack_loop lib max_width max_height rest)"

definition total_area :: "Sprite list \<Rightarrow> int \<Rightarrow> int \<Rightarrow> int" where
  "total_area sprite_list max_width max_height =
     sum_list (map (\<lambda>_. max_width * max_height) sprite_list)"

text \<open>
  \<^verbatim>\<open>create_new_spritesheet\<close>. The source image is only ever cropped, so it is part of the
  library parameter and no argument of its own.
\<close>

definition create_new_spritesheet ::
  "image_library \<Rightarrow> Sprite list \<Rightarrow> int \<Rightarrow> int \<Rightarrow> error + (atlas \<times> Sprite list)" where
  "create_new_spritesheet lib sprite_list max_width max_height =
     bindE (math_ceil_sqrt (total_area sprite_list max_width max_height)) (\<lambda>ceil_sqrt.
       (let new_dimensions = next_power_of_two ceil_sqrt
        in bindE (raise_if (new_raises lib (new_dimensions, new_dimensions))) (\<lambda>_.
           bindE (repack_loop lib max_width max_height sprite_list
                    (0, 0, [], \<lparr>atlas_size = (new_dimensions, new_dimensions), pastes = []\<rparr>))
             (\<lambda>(current_x, current_y, new_sprite_list, new_spritesheet_image).
           Inr (new_spritesheet_image, new_sprite_list)))))"

section \<open>\<^verbatim>\<open>update_xml_with_new_sprites\<close>\<close>

text \<open>
  The body of the loop for one \<^verbatim>\<open>SubTexture\<close> element. \<open>str_of\<close> is Python's \<^verbatim>\<open>str\<close>
  on integers. \<^verbatim>\<open>new_sprite_list[index]\<close> raises \<^verbatim>\<open>IndexError\<close> past the end of the
  list (the index is never negative).
\<close>

definition rewrite_sub_texture ::
  "(string \<Rightarrow> int option) \<Rightarrow> (int \<Rightarrow> string) \<Rightarrow> Sprite list \<Rightarrow> Sprite list
     \<Rightarrow> element \<Rightarrow> error + element" where
  "rewrite_sub_texture int_of str_of original_sprite_list new_sprite_list sub_texture =
     bindE (sprite_of_element int_of sub_texture) (\<lambda>original_sprite.
       case index_of original_sprite_list original_sprite of
         None \<Rightarrow> Inl ValueError_not_in_list
       | Some index \<Rightarrow>
           if index < length new_sprite_list
           then
             (let new_sprite = new_sprite_list ! index;
                  set_attrib = (attrib sub_texture)
                    (''x'' \<mapsto> str_of (x new_sprite),
                     ''y'' \<mapsto> str_of (y new_sprite),
                     ''width'' \<mapsto> str_of (width new_sprite),
                     ''height'' \<mapsto> str_of (height new_sprite))
              in Inr (sub_texture
                   \<lparr>attrib := foldl (\<lambda>a attr. a(attr := None)) set_attrib
                      [''frameX'', ''frameY'', ''frameWidth'', ''frameHeight'',
                       ''rotated'']\<rparr>))
           else Inl IndexError)"

text \<open>
  The function mutates the elements in place; the model returns the children of the root
  after the call. Children with another tag are not touched.
\<close>

fun update_xml_with_new_sprites ::
  "(string \<Rightarrow> int option) \<Rightarrow> (int \<Rightarrow> string) \<Rightarrow> element list \<Rightarrow> Sprite list
     \<Rightarrow> Sprite list \<Rightarrow> error + element list" where
  "update_xml_with_new_sprites int_of str_of [] original_sprite_list new_sprite_list = Inr []"
| "update_xml_with_new_sprites int_of str_of (child # rest)
       original_sprite_list new_sprite_list =
     (if tag child = ''SubTexture''
      then
        bindE (rewrite_sub_texture int_of str_of original_sprite_list new_sprite_list child)
          (\<lambda>child'.
        bindE (update_xml_with_new_sprites int_of str_of rest
                 original_sprite_list new_sprite_list) (\<lambda>rest'.
        Inr (child' # rest')))
      else
        bindE (update_xml_with_new_sprites int_of str_of rest
                 original_sprite_list new_sprite_list) (\<lambda>rest'.
        Inr (child # rest')))"

text \<open>
  \<^verbatim>\<open>generate_new_spritesheet\<close> between loading and saving: the calls of
  \<^verbatim>\<open>parse_sprites\<close>, \<^verbatim>\<open>create_new_spritesheet\<close> and \<^verbatim>\<open>update_xml_with_new_sprites\<close> in
  sequence, and what they hand to \<^verbatim>\<open>save_new_spritesheet_and_xml\<close>. Creating the output
  directory, reading the two input files and writing the two output files are outside
  the model; the source image that was read is part of the library parameter.
\<close>

definition generate_new_spritesheet ::
  "image_library \<Rightarrow> (string \<Rightarrow> int option) \<Rightarrow> (int \<Rightarrow> string) \<Rightarrow> element list
     \<Rightarrow> error + (atlas \<times> element list)" where
  "generate_new_spritesheet lib int_of str_of xml_root =
     bindE (parse_sprites int_of xml_root) (\<lambda>(sprite_list, max_width, max_height).
     bindE (create_new_spritesheet lib sprite_list max_width max_height)
       (\<lambda>(new_spritesheet_image, new_sprite_list).
     bindE (update_xml_with_new_sprites int_of str_of xml_root sprite_list new_sprite_list)
       (\<lambda>xml_root'.
     Inr (new_spritesheet_image, xml_root'))))"

section \<open>The grid of the specification\<close>

text \<open>
  The row-major cursor in the specification's words, for the comparison with the loop of
  \<^verbatim>\<open>create_new_spritesheet\<close>: it starts at \<open>(0, 0)\<close>; after a placement it advances by
  \<open>cell_w\<close>; before a placement it wraps to \<open>(0, cursor_y + cell_h)\<close> when
  \<open>cursor_x + cell_w\<close> exceeds the side. \<open>grid_cursor side cell_w cell_h i\<close> is where
  entry \<open>i\<close> of the catalog is placed.
\<close>

definition wrap_cursor :: "int \<Rightarrow> int \<Rightarrow> int \<Rightarrow> int \<times> int \<Rightarrow> int \<times> int" where
  "wrap_cursor side cell_w cell_h c =
     (if fst c + cell_w > side then (0, snd c + cell_h) else c)"

fun grid_cursor :: "int \<Rightarrow> int \<Rightarrow> int \<Rightarrow> nat \<Rightarrow> int \<times> int" where
  "grid_cursor side cell_w cell_h 0 = wrap_cursor side cell_w cell_h (0, 0)"
| "grid_cursor side cell_w cell_h (Suc i) =
     wrap_cursor side cell_w cell_h
       (fst (grid_cursor side cell_w cell_h i) + cell_w,
        snd (grid_cursor side cell_w cell_h i))"

text \<open>
  The paste made for entry \<open>i\<close> of the catalog, and the new image after the first \<open>n\<close>
  pastes, written with that cursor.
\<close>

definition paste_of :: "int \<Rightarrow> int \<Rightarrow> int \<Rightarrow> Sprite list \<Rightarrow> nat \<Rightarrow> paste_op" where
  "paste_of side cell_w cell_h cat i =
     \<lparr>pasted =
        \<lparr>crop_box =
           (if rotated (cat ! i)
            then (x (cat ! i), y (cat ! i),
                  x (cat ! i) + height (cat ! i), y (cat ! i) + width (cat ! i))
            else (x (cat ! i), y (cat ! i),
                  x (cat ! i) + width (cat ! i), y (cat ! i) + height (cat ! i))),
         rotate_90 = rotated (cat ! i)\<rparr>,
      paste_at = (fst (grid_cursor side cell_w cell_h i) - pos_x (cat ! i),
                  snd (grid_cursor side cell_w cell_h i) - pos_y (cat ! i))\<rparr>"

definition atlas_after :: "int \<Rightarrow> int \<Rightarrow> int \<Rightarrow> Sprite list \<Rightarrow> nat \<Rightarrow> atlas" where
  "atlas_after side cell_w cell_h cat n =
     \<lparr>atlas_size = (side, side), pastes = map (paste_of side cell_w cell_h cat) [0..<n]\<rparr>"

text \<open>
  No call into the image library raises during the run on a catalog: neither
  \<^verbatim>\<open>Image.new\<close> for the square of the given side nor, for any entry, its crop, its
  transposition if it is rotated, and its paste.
\<close>

definition calls_return :: "image_library \<Rightarrow> int \<Rightarrow> int \<Rightarrow> int \<Rightarrow> Sprite list \<Rightarrow> bool" where
  "calls_return lib side cell_w cell_h cat \<longleftrightarrow>
     new_raises lib (side, side) = None \<and>
     (\<forall>i<length cat.
        crop_raises lib (crop_box (pasted (paste_of side cell_w cell_h cat i))) = None \<and>
        (rotated (cat ! i) \<longrightarrow>
           transpose_raises lib
             \<lparr>crop_box = crop_box (pasted (paste_of side cell_w cell_h cat i)),
              rotate_90 = False\<rparr> = None) \<and>
        paste_raises lib (atlas_after side cell_w cell_h cat i)
          (pasted (paste_of side cell_w cell_h cat i))
          (paste_at (paste_of side cell_w cell_h cat i)) = None)"

section \<open>Decimal literals\<close>

text \<open>
  Two instances for the parameters \<open>int_of\<close> and \<open>str_of\<close>, used only where a theorem is
  applied to a concrete document. A string is a list of characters with code points
  below 256. On such a string \<^verbatim>\<open>int\<close> strips white space (the code points 9 to 13, 32,
  133 and 160) from both ends, reads an optional sign \<^verbatim>\<open>+\<close> or \<^verbatim>\<open>-\<close>, and then wants
  decimal digits, a single underscore being allowed between two digits; anything else is
  a \<^verbatim>\<open>ValueError\<close>. \<open>int_str\<close> is \<^verbatim>\<open>str\<close> on integers.
\<close>

definition digit_value :: "char \<Rightarrow> nat option" where
  "digit_value =
     map_of [(CHR ''0'', 0), (CHR ''1'', 1), (CHR ''2'', 2), (CHR ''3'', 3), (CHR ''4'', 4),
             (CHR ''5'', 5), (CHR ''6'', 6), (CHR ''7'', 7), (CHR ''8'', 8), (CHR ''9'', 9)]"

definition is_space :: "char \<Rightarrow> bool" where
  "is_space c \<longleftrightarrow>
     c \<in> set [CHR 0x09, CHR 0x0A, CHR 0x0B, CHR 0x0C, CHR 0x0D, CHR 0x20, CHR 0x85, CHR 0xA0]"

definition strip_space :: "string \<Rightarrow> string" where
  "strip_space s = rev (dropWhile is_space (rev (dropWhile is_space s)))"

text \<open>The digits after the first one: a digit, or an underscore and a digit.\<close>

fun digits_value :: "nat \<Rightarrow> string \<Rightarrow> nat option" where
  "digits_value acc [] = Some acc"
| "digits_value acc [c] =
     (case digit_value c of None \<Rightarrow> None | Some v \<Rightarrow> Some (10 * acc + v))"
| "digits_value acc (c # d # cs) =
     (if c = CHR ''_''
      then (case digit_value d of None \<Rightarrow> None | Some v \<Rightarrow> digits_value (10 * acc + v) cs)
      else (case digit_value c of None \<Rightarrow> None
            | Some v \<Rightarrow> digits_value (10 * acc + v) (d # cs)))"

definition unsigned_literal :: "string \<Rightarrow> nat option" where
  "unsigned_literal s =
     (case s of
        [] \<Rightarrow> None
      | c # cs \<Rightarrow> (case digit_value c of None \<Rightarrow> None | Some v \<Rightarrow> digits_value v cs))"

definition int_literal :: "string \<Rightarrow> int option" where
  "int_literal s =
     (case strip_space s of
        [] \<Rightarrow> None
      | c # cs \<Rightarrow>
          if c = CHR ''-'' then map_option (\<lambda>n. - int n) (unsigned_literal cs)
          else if c = CHR ''+'' then map_option int (unsigned_literal cs)
          else map_option int (unsigned_literal (c # cs)))"

fun nat_digits :: "nat \<Rightarrow> string" where
  "nat_digits n =
     (if n < 10 then [''0123456789'' ! n]
      else nat_digits (n div 10) @ [''0123456789'' ! (n mod 10)])"

declare nat_digits.simps [simp del]

definition int_str :: "int \<Rightarrow> string" where
  "int_str i = (if i < 0 then CHR ''-'' # nat_digits (nat (- i)) else nat_digits (nat i))"

section \<open>A sample document\<close>

text \<open>
  A small atlas description on which the theorems are instantiated: a child that is no
  \<^verbatim>\<open>SubTexture\<close>, a trimmed sprite, a sprite whose \<^verbatim>\<open>rotated\<close> attribute is the text
  \<^verbatim>\<open>false\<close>, a sprite without frame attributes, and a second name for the rectangle of
  the first sprite.
\<close>

definition sub_texture_of :: "(string \<times> string) list \<Rightarrow> element" where
  "sub_texture_of kvs = \<lparr>tag = ''SubTexture'', attrib = map_of kvs\<rparr>"

definition sample_root :: "element list" where
  "sample_root =
     [\<lparr>tag = ''Note'', attrib = map_of [(''x'', ''7'')]\<rparr>,
      sub_texture_of [(''name'', ''idle0''), (''x'', ''0''), (''y'', ''0''),
        (''width'', ''8''), (''height'', ''18''), (''frameX'', ''-2''), (''frameY'', ''-1''),
        (''frameWidth'', ''10''), (''frameHeight'', ''19'')],
      sub_texture_of [(''name'', ''idle1''), (''x'', ''8''), (''y'', ''0''),
        (''width'', ''3''), (''height'', ''4''), (''frameX'', ''-1''), (''frameY'', ''0''),
        (''rotated'', ''false'')],
      sub_texture_of [(''name'', ''idle2''), (''x'', ''12''), (''y'', ''0''),
        (''width'', ''15''), (''height'', ''8'')],
      sub_texture_of [(''name'', ''idle3''), (''x'', ''0''), (''y'', ''0''),
        (''width'', ''8''), (''height'', ''18''), (''frameX'', ''-2''), (''frameY'', ''-1'')]]"

text \<open>
  The sprites that \<^verbatim>\<open>parse_sprites\<close> builds from the four \<^verbatim>\<open>SubTexture\<close> elements: the
  first three make the catalog, the fourth is equal to the first by \<^verbatim>\<open>__eq__\<close>.
\<close>

definition sample_catalog :: "Sprite list" where
  "sample_catalog =
     [\<lparr>name = Some ''idle0'', x = 0, y = 0, width = 8, height = 18,
       pos_x = -2, pos_y = -1, rotated = False\<rparr>,
      \<lparr>name = Some ''idle1'', x = 8, y = 0, width = 4, height = 3,
       pos_x = 0, pos_y = -1, rotated = True\<rparr>,
      \<lparr>name = Some ''idle2'', x = 12, y = 0, width = 15, height = 8,
       pos_x = 0, pos_y = 0, rotated = False\<rparr>]"

definition sample_sprites :: "Sprite list" where
  "sample_sprites =
     sample_catalog @
     [\<lparr>name = Some ''idle3'', x = 0, y = 0, width = 8, height = 18,
       pos_x = -2, pos_y = -1, rotated = False\<rparr>]"

text \<open>
  A library for the instances: it refuses a new image of \<open>2 ^ 52\<close> pixels or more with
  \<^verbatim>\<open>MemoryError\<close> and a crop box whose right edge is left of its left edge, or whose
  lower edge is above its upper edge, with \<^verbatim>\<open>ValueError\<close>; every other call returns.
\<close>

definition checking_library :: image_library where
  "checking_library =
     \<lparr>new_raises = (\<lambda>size. if 2 ^ 52 \<le> fst size * snd size
                            then Some ''MemoryError'' else None),
      crop_raises = (\<lambda>box. case box of (left, upper, right, lower) \<Rightarrow>
                       if right < left \<or> lower < upper then Some ''ValueError'' else None),
      transpose_raises = (\<lambda>image. None),
      paste_raises = (\<lambda>image pasted_image position. None)\<rparr>"

section \<open>Exceptions in sequence\<close>

lemma bindE_Inl [simp]: "bindE (Inl err) f = Inl err"
  by (simp add: bindE_def)

lemma bindE_Inr [simp]: "bindE (Inr v) f = f v"
  by (simp add: bindE_def)

lemma bindE_eq_Inr: "bindE m f = Inr r \<longleftrightarrow> (\<exists>v. m = Inr v \<and> f v = Inr r)"
  by (cases m) simp_all

lemma bindE_eq_Inl:
  "bindE m f = Inl err \<longleftrightarrow> m = Inl err \<or> (\<exists>v. m = Inr v \<and> f v = Inl err)"
  by (cases m) simp_all

section \<open>Bit length and the integer square root\<close>

lemma bits_0: "bits 0 = 0" by (simp add: bits.simps)

lemma bits_pos: "0 < n \<Longrightarrow> bits n = Suc (bits (n div 2))"
  by (subst bits.simps) simp

lemma bits_bounds: "0 < n \<Longrightarrow> 2 ^ (bits n - 1) \<le> n \<and> n < 2 ^ bits n"
proof (induction n rule: bits.induct)
  case (1 n)
  show ?case
  proof (cases "n div 2 = 0")
    case True
    with "1.prems" have "n = 1" by presburger
    then show ?thesis by (simp add: bits_pos bits_0)
  next
    case False
    then have pos: "0 < n div 2" by simp
    from "1.IH" "1.prems" pos have IH: "2 ^ (bits (n div 2) - 1) \<le> n div 2" "n div 2 < 2 ^ bits (n div 2)"
      by auto
    have b: "bits n = Suc (bits (n div 2))" using "1.prems" by (rule bits_pos)
    have bp: "0 < bits (n div 2)" using pos by (simp add: bits_pos)
    then obtain k where k: "bits (n div 2) = Suc k" by (cases "bits (n div 2)") auto
    have d: "2 * (n div 2) \<le> n" "n < 2 * (n div 2) + 2" by presburger+
    from IH d show ?thesis unfolding b k by simp
  qed
qed

lemma bits_le: "n < 2 ^ k \<Longrightarrow> bits n \<le> k"
proof (cases "n = 0")
  case True then show ?thesis by (simp add: bits_0)
next
  case False
  assume "n < 2 ^ k"
  with False bits_bounds[of n] have "(2::nat) ^ (bits n - 1) < 2 ^ k"
    by (meson le_less_trans neq0_conv)
  then have "bits n - 1 < k" by simp
  then show ?thesis by simp
qed

lemma bits_ge: "2 ^ k \<le> n \<Longrightarrow> k < bits n"
proof -
  assume a: "2 ^ k \<le> n"
  then have "0 < n" by (cases "n = 0") auto
  with bits_bounds[of n] a have "(2::nat) ^ k < 2 ^ bits n"
    by (meson le_less_trans)
  then show ?thesis by simp
qed

lemma isqrt_bounds: "isqrt n * isqrt n \<le> n \<and> n < (isqrt n + 1) * (isqrt n + 1)"
proof (induction n rule: isqrt.induct)
  case (1 n)
  show ?case
  proof (cases "n < 2")
    case True
    then have "isqrt n = n" by (subst isqrt.simps) simp
    with True show ?thesis by (cases "n = 0") auto
  next
    case False
    define r where "r = 2 * isqrt (n div 4)"
    define q where "q = isqrt (n div 4)"
    from "1.IH" False have IH: "q * q \<le> n div 4" "n div 4 < (q + 1) * (q + 1)"
      by (auto simp: q_def)
    have e: "isqrt n = (if (2 * q + 1) * (2 * q + 1) \<le> n then 2 * q + 1 else 2 * q)"
      using False by (subst isqrt.simps) (simp add: Let_def q_def)
    from IH(1) have l: "4 * (q * q) \<le> n" by presburger
    from IH(2) have "n div 4 + 1 \<le> (q + 1) * (q + 1)" by simp
    then have "4 * (n div 4 + 1) \<le> 4 * ((q + 1) * (q + 1))" by simp
    moreover have "n < 4 * (n div 4 + 1)" by presburger
    ultimately have u: "n < 4 * ((q + 1) * (q + 1))" by linarith
    show ?thesis
    proof (cases "(2 * q + 1) * (2 * q + 1) \<le> n")
      case True
      with e have "isqrt n = 2 * q + 1" by simp
      with True u show ?thesis by (simp add: algebra_simps)
    next
      case F: False
      with e have "isqrt n = 2 * q" by simp
      with F l show ?thesis by (simp add: algebra_simps)
    qed
  qed
qed

lemma nat_square_less: "(a::nat) * a < b * b \<Longrightarrow> a < b"
  by (metis mult_le_mono not_less)

lemma nat_square_le: "(a::nat) * a \<le> b * b \<Longrightarrow> a \<le> b"
  by (metis mult_strict_mono' not_less zero_le)

text \<open>Rules that evaluate \<open>bits\<close> and \<open>isqrt\<close> on numerals.\<close>

lemma bits_numeral: "bits (numeral v) = Suc (bits (numeral v div 2))"
  by (subst bits.simps) simp

lemma bits_1: "bits (Suc 0) = Suc 0" by (simp add: bits.simps)

lemma isqrt_numeral:
  "isqrt (numeral v) =
     (if numeral v < (2::nat) then numeral v
      else (let r = 2 * isqrt (numeral v div 4)
            in if (r + 1) * (r + 1) \<le> numeral v then r + 1 else r))"
  by (rule isqrt.simps)

lemma isqrt_0: "isqrt 0 = 0" by (simp add: isqrt.simps)

lemma isqrt_1: "isqrt (Suc 0) = Suc 0" by (simp add: isqrt.simps)

lemmas eval_simps = bits_numeral bits_0 bits_1 isqrt_numeral isqrt_0 isqrt_1

section \<open>The double-precision square root is exact below \<open>2 ^ 52\<close>\<close>

lemma round_half_even_bounds:
  "v div 2 ^ d \<le> round_half_even v d \<and> round_half_even v d \<le> v div 2 ^ d + 1"
  by (simp add: round_half_even_def Let_def)

lemma round_half_even_exact:
  "v mod 2 ^ d = 0 \<Longrightarrow> round_half_even v d = v div 2 ^ d"
  by (simp add: round_half_even_def Let_def)

lemma float_of_nat_small: "n < 2 ^ 53 \<Longrightarrow> float_of_nat n = Some (n, 0)"
proof -
  assume a: "n < 2 ^ 53"
  then have "bits n \<le> 53" by (rule bits_le)
  then have d: "bits n - 53 = 0" by simp
  have "n < 2 ^ 1024" using a by simp
  then show ?thesis
    by (simp add: float_of_nat_def d round_half_even_def Let_def)
qed

lemma float_of_nat_returns:
  assumes "n < 2 ^ 1023"
  shows "\<exists>m. float_of_nat n = Some (m, int (bits n - 53))"
proof -
  define d where "d = bits n - 53"
  have le: "round_half_even n d * 2 ^ d \<le> n + 2 ^ d"
  proof -
    have "round_half_even n d * 2 ^ d \<le> (n div 2 ^ d + 1) * 2 ^ d"
      using round_half_even_bounds [of n d] by (intro mult_le_mono) simp_all
    also have "\<dots> = (n div 2 ^ d) * 2 ^ d + 2 ^ d" by (simp add: algebra_simps)
    also have "\<dots> \<le> n + 2 ^ d" by simp
    finally show ?thesis .
  qed
  have "n + 2 ^ d < 2 ^ 1024"
  proof (cases "d = 0")
    case True
    with assms show ?thesis by simp
  next
    case False
    then have "bits n = d + 53" by (simp add: d_def)
    moreover have "0 < n" using False by (cases "n = 0") (simp_all add: d_def bits_0)
    ultimately have "2 ^ (d + 52) \<le> n" using bits_bounds [of n] by (simp add: add.commute)
    moreover have "(2::nat) ^ d \<le> 2 ^ (d + 52)" by (rule power_increasing) simp_all
    ultimately have "2 ^ d \<le> n" by (rule order_trans [rotated])
    with assms show ?thesis by simp
  qed
  with le have "\<not> 2 ^ 1024 \<le> round_half_even n d * 2 ^ d" by simp
  then show ?thesis
    unfolding float_of_nat_def Let_def d_def [symmetric] by (simp only: if_False) blast
qed

lemma ceil_div_between:
  fixes q b k :: int
  assumes "0 < b" "k * b < q" "q \<le> (k + 1) * b"
  shows "- ((- q) div b) = k + 1"
proof -
  have "(- q) div b = - (k + 1)"
  proof (rule int_div_pos_eq)
    show "- q = b * - (k + 1) + ((k + 1) * b - q)" by (simp add: algebra_simps)
    show "0 \<le> (k + 1) * b - q" using assms by simp
    show "(k + 1) * b - q < b" using assms by (simp add: algebra_simps)
  qed
  then show ?thesis by simp
qed

lemma double_sqrt_ceil_exact:
  assumes n0: "0 < n" and nb: "n < 2 ^ 52"
  shows "double_ceil (double_sqrt (n, 0)) =
           int (if isqrt n * isqrt n = n then isqrt n else isqrt n + 1)"
proof -
  define k where "k = isqrt n"
  define N where "N = n * 4 ^ 54"
  define s where "s = isqrt N"
  define s' where "s' = 2 * s + (if s * s = N then 0 else 1)"
  define d where "d = bits s' - 53"
  have kb: "k * k \<le> n" "n < (k + 1) * (k + 1)"
    using isqrt_bounds[of n] by (simp_all add: k_def)
  have sb: "s * s \<le> N" "N < (s + 1) * (s + 1)"
    using isqrt_bounds[of N] by (simp_all add: s_def)
  define P :: nat where "P = 2 ^ 54"
  have pw: "(4::nat) ^ 54 = P * P" by (simp add: P_def)
  have P2: "(2::nat) ^ 55 = 2 * P" by (simp add: P_def)
  have k26: "k < 2 ^ 26"
  proof (rule nat_square_less)
    have "k * k < 2 ^ 52" using kb(1) nb by simp
    then show "k * k < 2 ^ 26 * 2 ^ 26" by simp
  qed
  have k1: "1 \<le> k"
  proof (rule ccontr)
    assume "\<not> 1 \<le> k"
    then have "k = 0" by simp
    with kb(2) n0 show False by simp
  qed
  have lo: "k * P \<le> s"
  proof -
    have "(k * P) * (k * P) = (k * k) * 4 ^ 54" by (simp only: pw ac_simps)
    also have "\<dots> \<le> N" unfolding N_def using kb(1) by simp
    also have "\<dots> < (s + 1) * (s + 1)" by (rule sb(2))
    finally have "k * P < s + 1" by (rule nat_square_less)
    then show ?thesis by simp
  qed
  have hi: "s < (k + 1) * P"
  proof (rule nat_square_less)
    have "N < ((k + 1) * (k + 1)) * 4 ^ 54" unfolding N_def using kb(2) by simp
    also have "\<dots> = ((k + 1) * P) * ((k + 1) * P)" by (simp only: pw ac_simps)
    finally show "s * s < ((k + 1) * P) * ((k + 1) * P)"
      using sb(1) by simp
  qed
  have s'lo: "2 * s \<le> s'" and s'hi: "s' \<le> 2 * s + 1" by (simp_all add: s'_def)
  have s'hi2: "s' < (k + 1) * (2 * P)" using hi s'hi by simp
  also have "\<dots> \<le> 2 ^ 26 * (2 * P)" using k26 by (intro mult_le_mono) simp_all
  finally have s'81: "s' < 2 ^ 81" by (simp add: P_def)
  have "2 * P \<le> k * (2 * P)" using k1 by simp
  also have "\<dots> \<le> s'" using lo s'lo by simp
  finally have s'55: "2 ^ 55 \<le> s'" by (simp only: P2)
  have b1: "bits s' \<le> 81" using s'81 by (rule bits_le)
  have b2: "55 < bits s'" using s'55 by (rule bits_ge)
  have d1: "3 \<le> d" and d2: "d \<le> 28" using b1 b2 by (simp_all add: d_def)
  define j where "j = 55 - d"
  have jd: "j + d = 55" using d2 by (simp add: j_def)
  have p55: "2 * P = 2 ^ j * 2 ^ d" by (simp add: jd flip: power_add P2)
  have "double_sqrt (n, 0) = (round_half_even s' d, int d - 55)"
    unfolding d_def s'_def s_def N_def double_sqrt_def using n0 by (simp add: Let_def)
  moreover have "int d - 55 = - int j" using jd by simp
  ultimately have res: "double_sqrt (n, 0) = (round_half_even s' d, - int j)" by simp
  have jpos: "0 < j" using jd d2 by simp
  have ceil: "double_ceil (double_sqrt (n, 0)) =
                - ((- int (round_half_even s' d)) div 2 ^ j)"
    using jpos by (simp add: res double_ceil_def)
  show ?thesis
  proof (cases "k * k = n")
    case True
    have "N = (k * P) * (k * P)"
      using True by (simp only: N_def pw ac_simps)
    then have "s * s \<le> (k * P) * (k * P)"
      using sb(1) by simp
    then have "s \<le> k * P" by (rule nat_square_le)
    with lo have se: "s = k * P" by simp
    then have "s * s = N" using \<open>N = (k * P) * (k * P)\<close> by simp
    then have "s' = k * (2 * P)" by (simp add: s'_def se)
    then have "s' = k * (2 ^ j * 2 ^ d)" by (simp only: p55)
    then have s'e: "s' = (k * 2 ^ j) * 2 ^ d" by (simp only: mult.assoc)
    then have "round_half_even s' d = k * 2 ^ j"
      by (simp add: round_half_even_exact)
    then have "double_ceil (double_sqrt (n, 0)) = - ((- (int k * 2 ^ j)) div 2 ^ j)"
      by (simp add: ceil)
    also have "\<dots> = int k"
    proof -
      have "(- int k * 2 ^ j) div 2 ^ j = - int k"
        by (rule nonzero_mult_div_cancel_right) simp
      then show ?thesis by simp
    qed
    finally show ?thesis using True by (simp add: k_def)
  next
    case False
    with kb(1) have kn: "k * k + 1 \<le> n" by simp
    define u :: nat where "u = 2 ^ (d - 1)"
    have u2: "2 * u = 2 ^ d" using d1 by (simp add: u_def flip: power_Suc)
    have "u \<le> 2 ^ 27" unfolding u_def using d2 by (intro power_increasing) simp_all
    then have uu: "u * u \<le> 2 ^ 27 * 2 ^ 27" by (intro mult_le_mono)
    have "k \<le> 2 ^ 26 - 1" using k26 by simp
    then have ku: "k * u \<le> (2 ^ 26 - 1) * 2 ^ 27" using \<open>u \<le> 2 ^ 27\<close>
      by (intro mult_le_mono)
    have A: "(2 * P) * (k * u) \<le> (2 * P) * ((2 ^ 26 - 1) * 2 ^ 27)"
      using ku by (rule mult_le_mono2)
    have "(k * P + u) * (k * P + u) =
            (k * k) * (P * P) + (2 * P) * (k * u) + u * u"
      by (simp add: algebra_simps)
    also have "\<dots> \<le> (k * k) * (P * P) + (2 * P) * ((2 ^ 26 - 1) * 2 ^ 27) + 2 ^ 27 * 2 ^ 27"
      by (rule add_mono [OF add_mono [OF order_refl A] uu])
    also have "\<dots> \<le> (k * k) * (P * P) + P * P" by (simp add: P_def)
    also have "\<dots> = (k * k + 1) * 4 ^ 54" by (simp only: pw) (simp add: algebra_simps)
    also have "\<dots> \<le> N" unfolding N_def using kn by (intro mult_le_mono) simp_all
    also have "\<dots> < (s + 1) * (s + 1)" by (rule sb(2))
    finally have "k * P + u < s + 1" by (rule nat_square_less)
    then have "2 * (k * P) + 2 * u \<le> s'" using s'lo by simp
    then have "k * (2 * P) + 2 ^ d \<le> s'"
      using u2 by (simp add: algebra_simps)
    then have "k * (2 ^ j * 2 ^ d) + 2 ^ d \<le> s'" by (simp only: p55)
    then have "(k * 2 ^ j + 1) * 2 ^ d \<le> s'" by (simp add: algebra_simps)
    then have "k * 2 ^ j + 1 \<le> s' div 2 ^ d"
      by (simp add: less_eq_div_iff_mult_less_eq)
    then have q1: "k * 2 ^ j < round_half_even s' d"
      using round_half_even_bounds[of s' d] by simp
    have "s' < (k + 1) * (2 ^ j * 2 ^ d)" using s'hi2 by (simp only: p55)
    then have "s' < ((k + 1) * 2 ^ j) * 2 ^ d" by (simp only: mult.assoc)
    then have "s' div 2 ^ d < (k + 1) * 2 ^ j"
      by (simp add: less_mult_imp_div_less)
    then have q2: "round_half_even s' d \<le> (k + 1) * 2 ^ j"
      using round_half_even_bounds[of s' d] by simp
    have "- ((- int (round_half_even s' d)) div 2 ^ j) = int k + 1"
    proof (rule ceil_div_between)
      show "(0::int) < 2 ^ j" by simp
      from q1 have "int (k * 2 ^ j) < int (round_half_even s' d)"
        by (simp only: of_nat_less_iff)
      then show "int k * 2 ^ j < int (round_half_even s' d)" by simp
      from q2 have "int (round_half_even s' d) \<le> int ((k + 1) * 2 ^ j)"
        by (simp only: of_nat_le_iff)
      then show "int (round_half_even s' d) \<le> (int k + 1) * 2 ^ j"
        by (simp add: algebra_simps)
    qed
    then show ?thesis using False by (simp add: ceil k_def)
  qed
qed

lemma ceiling_sqrt_isqrt:
  "\<lceil>sqrt (real n)\<rceil> = int (if isqrt n * isqrt n = n then isqrt n else isqrt n + 1)"
proof -
  define k where "k = isqrt n"
  have kb: "k * k \<le> n" "n < (k + 1) * (k + 1)"
    using isqrt_bounds[of n] by (simp_all add: k_def)
  show ?thesis
  proof (cases "k * k = n")
    case True
    then have "real n = (real k)\<^sup>2" by (simp add: power2_eq_square flip: of_nat_mult)
    then have "sqrt (real n) = real k" by simp
    then show ?thesis using True by (simp add: k_def)
  next
    case False
    with kb(1) have "k * k < n" by simp
    then have "(real k)\<^sup>2 < real n"
      by (simp add: power2_eq_square flip: of_nat_mult)
    then have lo: "real k < sqrt (real n)" by (rule real_less_rsqrt)
    from kb(2) have "real n \<le> (real (k + 1))\<^sup>2"
      unfolding power2_eq_square of_nat_mult [symmetric] of_nat_le_iff by simp
    then have hi: "sqrt (real n) \<le> real (k + 1)" by (intro real_le_lsqrt) simp_all
    have "\<lceil>sqrt (real n)\<rceil> = int (k + 1)"
    proof (rule ceiling_unique)
      show "of_int (int (k + 1)) - 1 < sqrt (real n)" using lo by simp
      show "sqrt (real n) \<le> of_int (int (k + 1))" using hi by simp
    qed
    then show ?thesis using False by (simp add: k_def)
  qed
qed

lemma math_ceil_sqrt_exact:
  assumes "0 \<le> a" "a < 2 ^ 52"
  shows "math_ceil_sqrt a = Inr \<lceil>sqrt (real_of_int a)\<rceil>"
proof -
  define n where "n = nat a"
  have a: "a = int n" using assms by (simp add: n_def)
  have nb: "n < 2 ^ 52" using assms by (simp add: n_def nat_less_iff)
  then have "n < 2 ^ 53" by simp
  then have f: "float_of_nat n = Some (n, 0)" by (rule float_of_nat_small)
  have "double_ceil (double_sqrt (n, 0)) = \<lceil>sqrt (real n)\<rceil>"
  proof (cases "n = 0")
    case True
    then show ?thesis by (simp add: double_sqrt_def double_ceil_def)
  next
    case False
    then have "0 < n" by simp
    then show ?thesis using nb
      by (simp only: double_sqrt_ceil_exact ceiling_sqrt_isqrt)
  qed
  then show ?thesis by (simp add: math_ceil_sqrt_def a f)
qed

lemma math_ceil_sqrt_returns:
  assumes "0 \<le> a" "a < 2 ^ 1023"
  shows "\<exists>r. math_ceil_sqrt a = Inr r"
proof -
  have "nat \<bar>a\<bar> < 2 ^ 1023" using assms by (simp add: nat_less_iff)
  from float_of_nat_returns [OF this] obtain m where
    "float_of_nat (nat \<bar>a\<bar>) = Some (m, int (bits (nat \<bar>a\<bar>) - 53))" by blast
  then show ?thesis using assms(1) by (simp add: math_ceil_sqrt_def)
qed

lemma math_ceil_sqrt_errors:
  "math_ceil_sqrt a = Inl err \<Longrightarrow> err = OverflowError \<or> err = ValueError_math_domain"
  by (auto simp: math_ceil_sqrt_def split: option.splits if_splits)

lemma math_ceil_sqrt_0: "math_ceil_sqrt 0 = Inr 0"
  by (simp add: math_ceil_sqrt_def float_of_nat_def round_half_even_def bits_0
        double_sqrt_def double_ceil_def)

text \<open>
  From \<open>2 ^ 52\<close> on the result is rounded, and it is at least \<open>2 ^ 26\<close>.
\<close>

lemma round_half_even_top:
  assumes "53 \<le> bits v" "d = bits v - 53"
  shows "2 ^ 52 \<le> round_half_even v d"
proof -
  have pos: "0 < v" using assms(1) by (cases "v = 0") (simp_all add: bits_0)
  have b: "bits v - 1 = d + 52" using assms by simp
  have "(2::nat) ^ (d + 52) \<le> v" using bits_bounds [OF pos] by (simp only: b)
  then have "(2::nat) ^ (d + 52) div 2 ^ d \<le> v div 2 ^ d" by (rule div_le_mono)
  moreover have "(2::nat) ^ (d + 52) div 2 ^ d = 2 ^ 52"
    by (simp only: power_add) simp
  ultimately have "2 ^ 52 \<le> v div 2 ^ d" by (simp only:)
  with round_half_even_bounds [of v d] show ?thesis by (meson order_trans)
qed

lemma float_of_nat_lower:
  assumes "2 ^ 52 \<le> n" "float_of_nat n = Some (m, e)"
  shows "2 ^ 52 \<le> m \<and> 0 \<le> e"
proof -
  define d where "d = bits n - 53"
  from assms(2) have m: "m = round_half_even n d" and e: "e = int d"
    by (simp_all add: float_of_nat_def Let_def d_def split: if_splits)
  have "52 < bits n" using assms(1) by (rule bits_ge)
  then have "53 \<le> bits n" by simp
  then have "2 ^ 52 \<le> round_half_even n d" using d_def by (rule round_half_even_top)
  then show ?thesis by (simp add: m e)
qed

lemma double_sqrt_lower:
  assumes "2 ^ 52 \<le> m" "0 \<le> e" "double_sqrt (m, e) = (q, e')"
  shows "2 ^ 52 \<le> q \<and> - 26 \<le> e'"
proof -
  define m1 where "m1 = (if even e then m else 2 * m)"
  define N where "N = m1 * 4 ^ 54"
  define s where "s = isqrt N"
  define s' where "s' = 2 * s + (if s * s = N then 0 else 1)"
  define d where "d = bits s' - 53"
  have m0: "m \<noteq> 0" using assms(1) by auto
  from assms(3) have q: "q = round_half_even s' d" and e': "e' = int d + e div 2 - 55"
    using m0 by (simp_all add: double_sqrt_def Let_def m1_def N_def s_def s'_def d_def)
  have "m \<le> m1" by (simp add: m1_def)
  with assms(1) have "2 ^ 52 \<le> m1" by (rule order_trans)
  then have "2 ^ 52 * 4 ^ 54 \<le> m1 * (4::nat) ^ 54" by (rule mult_le_mono1)
  moreover have "(2::nat) ^ 52 * 4 ^ 54 = 2 ^ 80 * 2 ^ 80" by simp
  ultimately have "(2::nat) ^ 80 * 2 ^ 80 \<le> N" by (simp only: N_def)
  moreover have "N < (s + 1) * (s + 1)" using isqrt_bounds [of N] by (simp add: s_def)
  ultimately have "(2::nat) ^ 80 * 2 ^ 80 < (s + 1) * (s + 1)" by (rule le_less_trans)
  then have "2 ^ 80 < s + 1" by (rule nat_square_less)
  then have "2 ^ 80 \<le> s" by simp
  then have "2 * 2 ^ 80 \<le> 2 * s" by (rule mult_le_mono2)
  then have "2 ^ 81 \<le> s'" by (simp add: s'_def)
  then have "81 < bits s'" by (rule bits_ge)
  then have b: "53 \<le> bits s'" and d29: "29 \<le> d" by (simp_all add: d_def)
  have "2 ^ 52 \<le> round_half_even s' d" using b d_def by (rule round_half_even_top)
  moreover have "0 \<le> e div 2" using assms(2) by simp
  ultimately show ?thesis using d29 by (simp add: q e')
qed

lemma double_ceil_lower:
  assumes "2 ^ 52 \<le> q" "- 26 \<le> e'"
  shows "2 ^ 26 \<le> double_ceil (q, e')"
proof (cases "0 \<le> e'")
  case True
  have "(2::int) ^ 26 \<le> 2 ^ 52" by simp
  also have "\<dots> \<le> int q" using assms(1) by (simp add: le_nat_iff [symmetric] nat_le_iff)
  also have "\<dots> = int q * 1" by simp
  also have "\<dots> \<le> int q * 2 ^ nat e'" by (intro mult_left_mono) simp_all
  finally show ?thesis using True by (simp add: double_ceil_def)
next
  case False
  define k where "k = nat (- e')"
  have k: "k \<le> 26" using assms(2) by (simp add: k_def)
  have q: "(2::int) ^ 52 \<le> int q" using assms(1) by (simp add: le_nat_iff [symmetric] nat_le_iff)
  have "(2::int) ^ k \<le> 2 ^ 26" using k by (intro power_increasing) simp_all
  then have "(2::int) ^ 26 * 2 ^ k \<le> 2 ^ 26 * 2 ^ 26" by (intro mult_left_mono) simp_all
  also have "\<dots> = 2 ^ 52" by simp
  finally have "(2::int) ^ 26 * 2 ^ k \<le> int q" using q by simp
  then have "- int q \<le> - (2 ^ 26) * 2 ^ k" by simp
  then have "(- int q) div 2 ^ k \<le> (- (2 ^ 26) * 2 ^ k) div 2 ^ k"
    by (intro zdiv_mono1) simp_all
  also have "\<dots> = - (2 ^ 26)"
    by (rule nonzero_mult_div_cancel_right) simp
  finally show ?thesis using False by (simp add: double_ceil_def k_def)
qed

lemma math_ceil_sqrt_lower:
  assumes "2 ^ 52 \<le> a" "math_ceil_sqrt a = Inr r"
  shows "2 ^ 26 \<le> r"
proof -
  have n: "2 ^ 52 \<le> nat \<bar>a\<bar>" using assms(1) by (simp add: le_nat_iff)
  from assms(2) obtain m e where f: "float_of_nat (nat \<bar>a\<bar>) = Some (m, e)"
    and r: "r = double_ceil (double_sqrt (m, e))"
    by (auto simp: math_ceil_sqrt_def split: option.splits if_splits)
  obtain q e' where s: "double_sqrt (m, e) = (q, e')" by (cases "double_sqrt (m, e)")
  from float_of_nat_lower [OF n f] have "2 ^ 52 \<le> m" "0 \<le> e" by simp_all
  from double_sqrt_lower [OF this s] have "2 ^ 52 \<le> q" "- 26 \<le> e'" by simp_all
  then have "2 ^ 26 \<le> double_ceil (q, e')" by (rule double_ceil_lower)
  then show ?thesis by (simp add: r s)
qed

text \<open>
  An argument above \<open>2 ^ 52\<close> on which the rounding shows: the square root of
  \<open>2 ^ 56 + 16\<close> lies less than half a unit in the last place above \<open>2 ^ 28\<close>.
\<close>

lemma double_sqrt_eval:
  "0 < m \<Longrightarrow> even e \<Longrightarrow> s = isqrt (m * 4 ^ 54) \<Longrightarrow>
   t = 2 * s + (if s * s = m * 4 ^ 54 then 0 else 1) \<Longrightarrow> d = bits t - 53 \<Longrightarrow>
   double_sqrt (m, e) = (round_half_even t d, int d + e div 2 - 55)"
  by (simp add: double_sqrt_def Let_def)

lemma math_ceil_sqrt_big: "math_ceil_sqrt (2 ^ 56 + 16) = Inr (2 ^ 28)"
proof -
  have f: "float_of_nat (2 ^ 56 + 16) = Some (2 ^ 52 + 1, 4)"
    by (simp add: float_of_nat_def round_half_even_def eval_simps)
  have s: "isqrt ((2 ^ 52 + 1) * 4 ^ 54) = 1208925819614629308923903"
    by (simp add: eval_simps)
  have "double_sqrt (2 ^ 52 + 1, 4) = (2 ^ 52, - 24)"
    by (rule trans [OF double_sqrt_eval [OF _ _ s [symmetric] refl refl]])
      (simp_all add: eval_simps round_half_even_def)
  then have "double_ceil (double_sqrt (2 ^ 52 + 1, 4)) = 2 ^ 28"
    by (simp add: double_ceil_def)
  then show ?thesis
    using f by (simp add: math_ceil_sqrt_def)
qed

lemma ceiling_sqrt_big: "\<lceil>sqrt (real_of_int (2 ^ 56 + 16))\<rceil> = 2 ^ 28 + 1"
proof (rule ceiling_unique)
  have "(2 ^ 28)\<^sup>2 < (2 ^ 56 + 16 :: real)" by simp
  then have "2 ^ 28 < sqrt (2 ^ 56 + 16 :: real)" by (rule real_less_rsqrt)
  then show "of_int (2 ^ 28 + 1) - 1 < sqrt (real_of_int (2 ^ 56 + 16))" by simp
  have "(2 ^ 56 + 16 :: real) \<le> (2 ^ 28 + 1)\<^sup>2" by simp
  then have "sqrt (2 ^ 56 + 16 :: real) \<le> 2 ^ 28 + 1" by (intro real_le_lsqrt) simp_all
  then show "sqrt (real_of_int (2 ^ 56 + 16)) \<le> of_int (2 ^ 28 + 1)" by simp
qed

lemma math_ceil_sqrt_960: "math_ceil_sqrt 960 = Inr 31"
proof -
  have "math_ceil_sqrt 960 = Inr \<lceil>sqrt (real_of_int 960)\<rceil>"
    by (rule math_ceil_sqrt_exact) simp_all
  moreover have "\<lceil>sqrt (real 960)\<rceil> = 31"
    unfolding ceiling_sqrt_isqrt by (simp add: eval_simps)
  ultimately show ?thesis by simp
qed

lemma ceiling_sqrt_960: "\<lceil>sqrt (real_of_int 960)\<rceil> = 31"
proof -
  have "\<lceil>sqrt (real 960)\<rceil> = 31"
    unfolding ceiling_sqrt_isqrt by (simp add: eval_simps)
  then show ?thesis by simp
qed

section \<open>\<^verbatim>\<open>next_power_of_two\<close> and \<^verbatim>\<open>next_multiple\<close>\<close>

lemma next_power_of_two_least:
  assumes "0 < m"
  shows "\<exists>k. next_power_of_two m = 2 ^ k \<and> m \<le> 2 ^ k \<and> (\<forall>j. m \<le> 2 ^ j \<longrightarrow> k \<le> j)"
proof -
  define n where "n = nat (m - 1)"
  have m: "m = int n + 1" using assms by (simp add: n_def)
  have np: "next_power_of_two m = 2 ^ bits n"
    using assms by (simp add: next_power_of_two_def bit_length_def n_def)
  show ?thesis
  proof (cases "n = 0")
    case True
    then have "next_power_of_two m = 2 ^ 0 \<and> m \<le> 2 ^ 0 \<and> (\<forall>j. m \<le> 2 ^ j \<longrightarrow> 0 \<le> j)"
      using np m by (simp add: bits_0)
    then show ?thesis by (rule exI)
  next
    case False
    then have b: "2 ^ (bits n - 1) \<le> n" "n < 2 ^ bits n"
      using bits_bounds[of n] by simp_all
    have le: "m \<le> 2 ^ bits n"
    proof -
      from b(2) have "n + 1 \<le> 2 ^ bits n" by simp
      then have "int (n + 1) \<le> int (2 ^ bits n)" by (rule of_nat_mono)
      then show ?thesis unfolding m
        by (simp only: of_nat_power of_nat_numeral of_nat_add of_nat_1)
    qed
    have least: "bits n \<le> j" if "m \<le> 2 ^ j" for j
    proof (rule ccontr)
      assume "\<not> bits n \<le> j"
      then have "j \<le> bits n - 1" by simp
      then have "(2::nat) ^ j \<le> 2 ^ (bits n - 1)" by (rule power_increasing) simp
      with b(1) have "2 ^ j \<le> n" by (rule order_trans [rotated])
      then have "int (2 ^ j) \<le> int n" by (rule of_nat_mono)
      then have "(2::int) ^ j \<le> int n" by (simp only: of_nat_power of_nat_numeral)
      with that show False unfolding m by linarith
    qed
    show ?thesis using np le least by blast
  qed
qed

lemma next_power_of_two_examples:
  "next_power_of_two 0 = 1" "next_power_of_two 5 = 8" "next_power_of_two 16 = 16"
  by (simp_all add: next_power_of_two_def bit_length_def bits_numeral bits_0 bits_1)

lemma next_power_of_two_31: "next_power_of_two 31 = 32"
  by (simp add: next_power_of_two_def bit_length_def eval_simps)

lemma next_multiple_4:
  "next_multiple n SPRITE_SIZE_MULTIPLE = Inr (if n mod 4 \<noteq> 0 then n + (4 - n mod 4) else n)"
  by (simp add: next_multiple_def SPRITE_SIZE_MULTIPLE_def)

lemma next_multiple_4_least:
  "n mod 4 \<noteq> 0 \<Longrightarrow>
     \<exists>r. next_multiple n 4 = Inr r \<and> r mod 4 = 0 \<and> n < r \<and> (\<forall>m. m mod 4 = 0 \<and> n < m \<longrightarrow> r \<le> m)"
  unfolding next_multiple_def by (simp, intro conjI allI impI; presburger)

section \<open>Equality, membership and lookup of sprites\<close>

lemma sprite_eq_refl: "sprite_eq s s"
  by (simp add: sprite_eq_def)

lemma sprite_eq_sym: "sprite_eq a b \<Longrightarrow> sprite_eq b a"
  by (simp add: sprite_eq_def)

lemma sprite_eq_trans: "sprite_eq a b \<Longrightarrow> sprite_eq b c \<Longrightarrow> sprite_eq a c"
  by (simp add: sprite_eq_def)

lemma contains_Nil [simp]: "\<not> contains [] s"
  by (simp add: contains_def)

lemma contains_Cons: "contains (item # items) s \<longleftrightarrow> sprite_eq item s \<or> contains items s"
  by (simp add: contains_def)

lemma contains_append: "contains (xs @ ys) s \<longleftrightarrow> contains xs s \<or> contains ys s"
  by (simp add: contains_def)

lemma contains_iff: "contains xs s \<longleftrightarrow> (\<exists>item \<in> set xs. sprite_eq item s)"
  by (simp add: contains_def list_ex_iff)

lemma index_of_None_iff: "index_of xs s = None \<longleftrightarrow> \<not> contains xs s"
  by (induction xs) (simp_all add: contains_Cons)

lemma index_of_Some:
  "index_of xs s = Some i \<Longrightarrow>
     i < length xs \<and> sprite_eq (xs ! i) s \<and> (\<forall>j<i. \<not> sprite_eq (xs ! j) s)"
proof (induction xs arbitrary: i)
  case Nil
  then show ?case by simp
next
  case (Cons item items)
  show ?case
  proof (cases "sprite_eq item s")
    case True
    with Cons.prems show ?thesis by simp
  next
    case False
    with Cons.prems obtain i' where i': "index_of items s = Some i'" "i = Suc i'"
      by auto
    from Cons.IH[OF i'(1)] False show ?thesis
      unfolding i'(2) by (auto simp: less_Suc_eq_0_disj)
  qed
qed

lemma contains_index_of: "contains xs s \<Longrightarrow> \<exists>i. index_of xs s = Some i"
  using index_of_None_iff[of xs s] by (cases "index_of xs s") auto

lemma new_Sprite_sel [simp]:
  "name (new_Sprite n x0 y0 w h px py r) = n"
  "x (new_Sprite n x0 y0 w h px py r) = x0"
  "y (new_Sprite n x0 y0 w h px py r) = y0"
  "width (new_Sprite n x0 y0 w h px py r) = (if r then h else w)"
  "height (new_Sprite n x0 y0 w h px py r) = (if r then w else h)"
  "pos_x (new_Sprite n x0 y0 w h px py r) = (if r then py else px)"
  "pos_y (new_Sprite n x0 y0 w h px py r) = (if r then px else py)"
  "rotated (new_Sprite n x0 y0 w h px py r) = r"
  by (simp_all add: new_Sprite_def post_init_def)

section \<open>The parser\<close>

lemma sprite_of_element_Inr:
  "sprite_of_element int_of e = Inr s \<longleftrightarrow>
     (\<exists>vx vy vw vh vpx vpy.
        py_int int_of (attrib e ''x'') = Inr vx \<and>
        py_int int_of (attrib e ''y'') = Inr vy \<and>
        py_int int_of (attrib e ''width'') = Inr vw \<and>
        py_int int_of (attrib e ''height'') = Inr vh \<and>
        py_int_default_0 int_of (attrib e ''frameX'') = Inr vpx \<and>
        py_int_default_0 int_of (attrib e ''frameY'') = Inr vpy \<and>
        s = new_Sprite (attrib e ''name'') vx vy vw vh vpx vpy
              (py_bool_default_False (attrib e ''rotated'')))"
  unfolding sprite_of_element_def bindE_eq_Inr by auto

lemma py_int_errors: "py_int int_of v = Inl err \<Longrightarrow> err = TypeError \<or> err = ValueError_int"
  by (auto simp: py_int_def split: option.splits)

lemma py_int_default_0_errors:
  "py_int_default_0 int_of v = Inl err \<Longrightarrow> err = TypeError \<or> err = ValueError_int"
  by (auto simp: py_int_default_0_def dest: py_int_errors split: option.splits)

lemma sprite_of_element_errors:
  "sprite_of_element int_of e = Inl err \<Longrightarrow> err = TypeError \<or> err = ValueError_int"
  unfolding sprite_of_element_def bindE_eq_Inl
  by (auto dest: py_int_errors py_int_default_0_errors)

lemma Max_insert_max:
  "finite S \<Longrightarrow> Max (insert (max m a) S) = Max (insert (m::int) (insert a S))"
  by (cases "S = {}") (simp_all add: max.assoc)

lemma parse_loop_Inr:
  "parse_loop int_of es (sl, mw, mh) = Inr (sl', mw', mh') \<Longrightarrow>
     \<exists>recs. map (sprite_of_element int_of) es = map Inr recs \<and>
       mw' = Max (insert mw ((\<lambda>s. width s - pos_x s) ` set recs)) \<and>
       mh' = Max (insert mh ((\<lambda>s. height s - pos_y s) ` set recs)) \<and>
       (\<forall>s. contains sl s \<longrightarrow> contains sl' s) \<and>
       (\<forall>s \<in> set recs. contains sl' s) \<and>
       set sl' \<subseteq> set sl \<union> set recs"
proof (induction es arbitrary: sl mw mh)
  case Nil
  then show ?case by simp
next
  case (Cons e es)
  from Cons.prems obtain s where s: "sprite_of_element int_of e = Inr s"
    and rest: "parse_loop int_of es
         (if \<not> contains sl s then sl @ [s] else sl,
          max mw (width s - pos_x s), max mh (height s - pos_y s)) = Inr (sl', mw', mh')"
    by (auto simp: bindE_eq_Inr)
  define sl1 where "sl1 = (if \<not> contains sl s then sl @ [s] else sl)"
  from Cons.IH[OF rest] obtain recs where
    recs: "map (sprite_of_element int_of) es = map Inr recs"
    and w: "mw' = Max (insert (max mw (width s - pos_x s)) ((\<lambda>s. width s - pos_x s) ` set recs))"
    and h: "mh' = Max (insert (max mh (height s - pos_y s)) ((\<lambda>s. height s - pos_y s) ` set recs))"
    and keep: "\<forall>t. contains sl1 t \<longrightarrow> contains sl' t"
    and found: "\<forall>t \<in> set recs. contains sl' t"
    and sub: "set sl' \<subseteq> set sl1 \<union> set recs"
    unfolding sl1_def by blast
  have c1: "contains sl1 s"
    by (simp add: sl1_def contains_append contains_Cons sprite_eq_refl)
  have c2: "\<And>t. contains sl t \<Longrightarrow> contains sl1 t"
    by (simp add: sl1_def contains_append)
  have c3: "set sl1 \<subseteq> set sl \<union> {s}" by (auto simp: sl1_def)
  show ?case
  proof (intro exI[of _ "s # recs"] conjI)
    show "map (sprite_of_element int_of) (e # es) = map Inr (s # recs)"
      using s recs by simp
    show "mw' = Max (insert mw ((\<lambda>s. width s - pos_x s) ` set (s # recs)))"
      using w by (simp add: Max_insert_max)
    show "mh' = Max (insert mh ((\<lambda>s. height s - pos_y s) ` set (s # recs)))"
      using h by (simp add: Max_insert_max)
    show "\<forall>t. contains sl t \<longrightarrow> contains sl' t" using keep c2 by blast
    show "\<forall>t \<in> set (s # recs). contains sl' t" using keep c1 found by auto
    show "set sl' \<subseteq> set sl \<union> set (s # recs)" using sub c3 by auto
  qed
qed

lemma parse_loop_total:
  "map (sprite_of_element int_of) es = map Inr recs \<Longrightarrow> \<exists>r. parse_loop int_of es st = Inr r"
proof (induction es arbitrary: st recs)
  case Nil
  then show ?case by (cases st) simp
next
  case (Cons e es)
  then obtain s recs' where "sprite_of_element int_of e = Inr s"
    "map (sprite_of_element int_of) es = map Inr recs'"
    by (cases recs) auto
  with Cons.IH[of recs'] show ?case
    by (cases st) simp
qed

lemma parse_loop_errors:
  "parse_loop int_of es st = Inl err \<Longrightarrow> err = TypeError \<or> err = ValueError_int"
proof (induction es arbitrary: st)
  case Nil
  then show ?case by (cases st) simp
next
  case (Cons e es)
  obtain sl w0 h0 where st: "st = (sl, w0, h0)" by (cases st) auto
  from Cons.prems Cons.IH show ?case
    unfolding st by (auto simp: bindE_eq_Inl dest: sprite_of_element_errors)
qed

lemma parse_sprites_Inr:
  assumes "parse_sprites int_of xml_root = Inr (cat, mw, mh)"
  shows "\<exists>recs. map (sprite_of_element int_of) (findall xml_root ''SubTexture'') = map Inr recs \<and>
       next_multiple (Max (insert 0 ((\<lambda>s. width s - pos_x s) ` set recs)))
         SPRITE_SIZE_MULTIPLE = Inr mw \<and>
       next_multiple (Max (insert 0 ((\<lambda>s. height s - pos_y s) ` set recs)))
         SPRITE_SIZE_MULTIPLE = Inr mh \<and>
       (\<forall>s \<in> set recs. contains cat s) \<and> set cat \<subseteq> set recs"
proof -
  from assms obtain st where
    st: "parse_loop int_of (findall xml_root ''SubTexture'') ([], 0, 0) = Inr st"
    and fin: "(case st of (sprite_list, max_width, max_height) \<Rightarrow>
       bindE (next_multiple max_width SPRITE_SIZE_MULTIPLE) (\<lambda>max_width'.
       bindE (next_multiple max_height SPRITE_SIZE_MULTIPLE) (\<lambda>max_height'.
       Inr (sprite_list, max_width', max_height')))) = Inr (cat, mw, mh)"
    unfolding parse_sprites_def bindE_eq_Inr by blast
  obtain sl w0 h0 where st_eq: "st = (sl, w0, h0)" by (cases st) auto
  from fin have "sl = cat" and w: "next_multiple w0 SPRITE_SIZE_MULTIPLE = Inr mw"
    and h: "next_multiple h0 SPRITE_SIZE_MULTIPLE = Inr mh"
    unfolding st_eq by (simp_all add: next_multiple_4)
  with st have loop:
    "parse_loop int_of (findall xml_root ''SubTexture'') ([], 0, 0) = Inr (cat, w0, h0)"
    by (simp add: st_eq)
  from parse_loop_Inr[OF loop] w h show ?thesis by auto
qed

lemma parse_sprites_total:
  assumes "map (sprite_of_element int_of) (findall xml_root ''SubTexture'') = map Inr recs"
  shows "\<exists>cat mw mh. parse_sprites int_of xml_root = Inr (cat, mw, mh)"
proof -
  from parse_loop_total[OF assms] obtain cat w0 h0 where
    "parse_loop int_of (findall xml_root ''SubTexture'') ([], 0, 0) = Inr (cat, w0, h0)"
    by (metis prod_cases3)
  then show ?thesis
    by (simp add: parse_sprites_def next_multiple_4)
qed

lemma parse_sprites_errors:
  "parse_sprites int_of xml_root = Inl err \<Longrightarrow> err = TypeError \<or> err = ValueError_int"
  unfolding parse_sprites_def bindE_eq_Inl
  by (auto simp: next_multiple_4 dest: parse_loop_errors split: prod.splits)

lemma map_eq_map_Inr_in_set:
  "map f xs = map Inr ys \<Longrightarrow> e \<in> set xs \<Longrightarrow> \<exists>s \<in> set ys. f e = Inr s"
proof (induction xs arbitrary: ys)
  case Nil
  then show ?case by simp
next
  case (Cons a xs)
  then show ?case by (cases ys) auto
qed

lemma lookup_succeeds:
  assumes p: "parse_sprites int_of xml_root = Inr (cat, mw, mh)"
    and e: "e \<in> set (findall xml_root ''SubTexture'')"
  shows "\<exists>s idx. sprite_of_element int_of e = Inr s \<and> index_of cat s = Some idx \<and>
           idx < length cat \<and> sprite_eq (cat ! idx) s \<and> (\<forall>j<idx. \<not> sprite_eq (cat ! j) s)"
proof -
  from parse_sprites_Inr[OF p] obtain recs where
    r: "map (sprite_of_element int_of) (findall xml_root ''SubTexture'') = map Inr recs"
    and c: "\<forall>s \<in> set recs. contains cat s"
    by blast
  from map_eq_map_Inr_in_set[OF r e] obtain s where
    s: "s \<in> set recs" "sprite_of_element int_of e = Inr s" by blast
  with c have "contains cat s" by blast
  then obtain idx where idx: "index_of cat s = Some idx" using contains_index_of by blast
  from index_of_Some[OF idx] s(2) idx show ?thesis by blast
qed

section \<open>The repacker\<close>

lemma bindE_raise_if:
  "bindE (raise_if r) f = (case r of None \<Rightarrow> f () | Some exc \<Rightarrow> Inl (PIL_error exc))"
  by (simp add: raise_if_def bindE_def split: option.splits)

lemma bindE_assoc: "bindE (bindE m f) g = bindE m (\<lambda>v. bindE (f v) g)"
  by (simp add: bindE_def split: sum.splits)

lemma repack_body_Inr:
  "repack_body lib cw ch s (cx, cy, nsl, img) = Inr st \<longleftrightarrow>
     (let box = (if rotated s then (x s, y s, x s + height s, y s + width s)
                 else (x s, y s, x s + width s, y s + height s));
          c = wrap_cursor (fst (atlas_size img)) cw ch (cx, cy)
      in crop_raises lib box = None \<and>
         (rotated s \<longrightarrow> transpose_raises lib \<lparr>crop_box = box, rotate_90 = False\<rparr> = None) \<and>
         paste_raises lib img \<lparr>crop_box = box, rotate_90 = rotated s\<rparr>
           (fst c - pos_x s, snd c - pos_y s) = None \<and>
         st = (fst c + cw, snd c, nsl @ [new_Sprite (name s) (fst c) (snd c) cw ch 0 0 False],
               img\<lparr>pastes := pastes img @
                  [\<lparr>pasted = \<lparr>crop_box = box, rotate_90 = rotated s\<rparr>,
                    paste_at = (fst c - pos_x s, snd c - pos_y s)\<rparr>]\<rparr>))"
  by (auto simp: repack_body_def raise_if_def Let_def wrap_cursor_def bindE_def
           split: option.splits)

lemma repack_body_Inl:
  "repack_body lib cw ch s st = Inl err \<Longrightarrow> \<exists>exc. err = PIL_error exc"
  by (cases st)
     (auto simp: repack_body_def raise_if_def Let_def bindE_def
           split: option.splits if_splits)

lemma repack_loop_Inl:
  "repack_loop lib cw ch cat st = Inl err \<Longrightarrow> \<exists>exc. err = PIL_error exc"
proof (induction cat arbitrary: st)
  case Nil
  then show ?case by simp
next
  case (Cons s cat)
  show ?case
  proof (cases "repack_body lib cw ch s st")
    case (Inl e)
    with Cons.prems have "e = err" by (simp add: bindE_def)
    with Inl show ?thesis by (auto dest: repack_body_Inl)
  next
    case (Inr st')
    with Cons.prems have "repack_loop lib cw ch cat st' = Inl err" by (simp add: bindE_def)
    then show ?thesis by (rule Cons.IH)
  qed
qed

lemma repack_loop_append:
  "repack_loop lib cw ch (xs @ ys) st =
     bindE (repack_loop lib cw ch xs st) (repack_loop lib cw ch ys)"
proof (induction xs arbitrary: st)
  case Nil
  then show ?case by (simp add: bindE_def)
next
  case (Cons s xs)
  have "repack_loop lib cw ch (xs @ ys) =
          (\<lambda>v. bindE (repack_loop lib cw ch xs v) (repack_loop lib cw ch ys))"
    by (rule ext) (rule Cons.IH)
  then show ?case by (simp add: bindE_assoc)
qed

lemma grid_cursor_wrap:
  "grid_cursor side cw ch n =
     wrap_cursor side cw ch
       (case n of 0 \<Rightarrow> (0, 0)
        | Suc m \<Rightarrow> (fst (grid_cursor side cw ch m) + cw, snd (grid_cursor side cw ch m)))"
  by (cases n) simp_all

lemma repack_loop_take:
  "n \<le> length cat \<Longrightarrow>
   repack_loop lib cw ch (take n cat) (0, 0, [], \<lparr>atlas_size = (side, side), pastes = []\<rparr>)
     = Inr st \<longleftrightarrow>
     (\<forall>i<n.
        crop_raises lib (crop_box (pasted (paste_of side cw ch cat i))) = None \<and>
        (rotated (cat ! i) \<longrightarrow>
           transpose_raises lib
             \<lparr>crop_box = crop_box (pasted (paste_of side cw ch cat i)),
              rotate_90 = False\<rparr> = None) \<and>
        paste_raises lib (atlas_after side cw ch cat i)
          (pasted (paste_of side cw ch cat i))
          (paste_at (paste_of side cw ch cat i)) = None) \<and>
     st =
      (fst (case n of 0 \<Rightarrow> (0, 0)
           | Suc m \<Rightarrow> (fst (grid_cursor side cw ch m) + cw, snd (grid_cursor side cw ch m))),
       snd (case n of 0 \<Rightarrow> (0, 0)
           | Suc m \<Rightarrow> (fst (grid_cursor side cw ch m) + cw, snd (grid_cursor side cw ch m))),
       map (\<lambda>i. new_Sprite (name (cat ! i))
                  (fst (grid_cursor side cw ch i)) (snd (grid_cursor side cw ch i))
                  cw ch 0 0 False) [0..<n],
       atlas_after side cw ch cat n)"
  (is "_ \<Longrightarrow> repack_loop lib cw ch (take n cat) ?st0 = Inr st \<longleftrightarrow> (\<forall>i<n. ?ok i) \<and> st = ?inv n")
proof (induction n arbitrary: st)
  case 0
  show ?case by (auto simp: atlas_after_def)
next
  case (Suc n)
  then have n: "n < length cat" and le: "n \<le> length cat" by simp_all
  have IH: "\<And>st. repack_loop lib cw ch (take n cat) ?st0 = Inr st \<longleftrightarrow>
                 (\<forall>i<n. ?ok i) \<and> st = ?inv n"
    using Suc.IH [OF le] .
  have g: "grid_cursor side cw ch n =
     wrap_cursor side cw ch
       (case n of 0 \<Rightarrow> (0, 0)
        | Suc m \<Rightarrow> (fst (grid_cursor side cw ch m) + cw, snd (grid_cursor side cw ch m)))"
    by (rule grid_cursor_wrap)
  have step: "repack_body lib cw ch (cat ! n) (?inv n) = Inr st \<longleftrightarrow> ?ok n \<and> st = ?inv (Suc n)"
    unfolding repack_body_Inr
    by (auto simp: Let_def g [symmetric] paste_of_def atlas_after_def)
  have tk: "take (Suc n) cat = take n cat @ [cat ! n]"
    using n by (rule take_Suc_conv_app_nth)
  show ?case
  proof (cases "repack_loop lib cw ch (take n cat) ?st0")
    case (Inl e)
    then have "\<not> (\<forall>i<n. ?ok i)" using IH [of "?inv n"] by simp
    then have "\<not> (\<forall>i<Suc n. ?ok i)" by (meson less_Suc_eq)
    with Inl show ?thesis by (simp add: tk repack_loop_append bindE_def)
  next
    case (Inr st')
    then have ok: "\<forall>i<n. ?ok i" and st': "st' = ?inv n" using IH [of st'] by simp_all
    have "repack_loop lib cw ch (take (Suc n) cat) ?st0 = Inr st \<longleftrightarrow>
            repack_body lib cw ch (cat ! n) (?inv n) = Inr st"
      using Inr st' by (simp add: tk repack_loop_append bindE_def split: sum.splits)
    also have "\<dots> \<longleftrightarrow> ?ok n \<and> st = ?inv (Suc n)" by (rule step)
    also have "\<dots> \<longleftrightarrow> (\<forall>i<Suc n. ?ok i) \<and> st = ?inv (Suc n)"
      using ok by (auto simp: less_Suc_eq)
    finally show ?thesis .
  qed
qed

lemma total_area_eq: "total_area cat cw ch = int (length cat) * cw * ch"
  unfolding total_area_def by (induction cat) (simp_all add: algebra_simps)

lemma repack_loop_all:
  "repack_loop lib cw ch cat (0, 0, [], \<lparr>atlas_size = (side, side), pastes = []\<rparr>) = Inr st
   \<and> new_raises lib (side, side) = None \<longleftrightarrow>
     calls_return lib side cw ch cat \<and>
     st =
      (fst (case length cat of 0 \<Rightarrow> (0, 0)
           | Suc m \<Rightarrow> (fst (grid_cursor side cw ch m) + cw, snd (grid_cursor side cw ch m))),
       snd (case length cat of 0 \<Rightarrow> (0, 0)
           | Suc m \<Rightarrow> (fst (grid_cursor side cw ch m) + cw, snd (grid_cursor side cw ch m))),
       map (\<lambda>i. new_Sprite (name (cat ! i))
                  (fst (grid_cursor side cw ch i)) (snd (grid_cursor side cw ch i))
                  cw ch 0 0 False) [0..<length cat],
       atlas_after side cw ch cat (length cat))"
  using repack_loop_take [of "length cat" cat lib cw ch side st]
  unfolding calls_return_def by auto

lemma create_new_spritesheet_Inr_iff:
  "create_new_spritesheet lib cat cw ch = Inr (img, new) \<longleftrightarrow>
     (\<exists>r. math_ceil_sqrt (int (length cat) * cw * ch) = Inr r \<and>
        calls_return lib (next_power_of_two r) cw ch cat \<and>
        img = atlas_after (next_power_of_two r) cw ch cat (length cat) \<and>
        new = map (\<lambda>i. new_Sprite (name (cat ! i))
                  (fst (grid_cursor (next_power_of_two r) cw ch i))
                  (snd (grid_cursor (next_power_of_two r) cw ch i))
                  cw ch 0 0 False) [0..<length cat])"
proof (cases "math_ceil_sqrt (int (length cat) * cw * ch)")
  case (Inl e)
  then show ?thesis by (simp add: create_new_spritesheet_def total_area_eq bindE_def)
next
  case (Inr r)
  define side where "side = next_power_of_two r"
  let ?st0 = "(0, 0, [], \<lparr>atlas_size = (side, side), pastes = []\<rparr>)"
  have "create_new_spritesheet lib cat cw ch = Inr (img, new) \<longleftrightarrow>
          (\<exists>cx cy. repack_loop lib cw ch cat ?st0 = Inr (cx, cy, new, img) \<and>
             new_raises lib (side, side) = None)"
    using Inr
    by (auto simp: create_new_spritesheet_def total_area_eq Let_def side_def
          raise_if_def bindE_def split: option.splits sum.splits)
  also have "\<dots> \<longleftrightarrow>
     calls_return lib side cw ch cat \<and>
     img = atlas_after side cw ch cat (length cat) \<and>
     new = map (\<lambda>i. new_Sprite (name (cat ! i))
                  (fst (grid_cursor side cw ch i)) (snd (grid_cursor side cw ch i))
                  cw ch 0 0 False) [0..<length cat]"
    unfolding repack_loop_all by auto
  finally show ?thesis using Inr by (simp add: side_def)
qed

lemma create_new_spritesheet_returns_iff:
  "(\<exists>img new. create_new_spritesheet lib cat cw ch = Inr (img, new)) \<longleftrightarrow>
     (\<exists>r. math_ceil_sqrt (int (length cat) * cw * ch) = Inr r \<and>
          calls_return lib (next_power_of_two r) cw ch cat)"
  unfolding create_new_spritesheet_Inr_iff by blast

lemma create_new_spritesheet_Inl:
  assumes "create_new_spritesheet lib cat cw ch = Inl err"
  shows "math_ceil_sqrt (int (length cat) * cw * ch) = Inl err \<or> (\<exists>exc. err = PIL_error exc)"
proof (cases "math_ceil_sqrt (int (length cat) * cw * ch)")
  case (Inl e)
  with assms show ?thesis by (simp add: create_new_spritesheet_def total_area_eq bindE_def)
next
  case (Inr r)
  define side where "side = next_power_of_two r"
  show ?thesis
  proof (cases "new_raises lib (side, side)")
    case (Some exc)
    with assms Inr have "err = PIL_error exc"
      by (simp add: create_new_spritesheet_def total_area_eq Let_def side_def
            raise_if_def bindE_def)
    then show ?thesis by blast
  next
    case None
    with assms Inr have
      "repack_loop lib cw ch cat (0, 0, [], \<lparr>atlas_size = (side, side), pastes = []\<rparr>)
         = Inl err"
      by (auto simp: create_new_spritesheet_def total_area_eq Let_def side_def
            raise_if_def bindE_def split: sum.splits)
    then show ?thesis by (blast dest: repack_loop_Inl)
  qed
qed

lemma create_new_spritesheet_errors:
  assumes "create_new_spritesheet lib cat cw ch = Inl err"
  shows "err = OverflowError \<or> err = ValueError_math_domain \<or> (\<exists>exc. err = PIL_error exc)"
  using create_new_spritesheet_Inl [OF assms] by (auto dest: math_ceil_sqrt_errors)

lemma create_new_spritesheet_new_raises:
  "new_raises lib (1, 1) = Some exc \<Longrightarrow>
   create_new_spritesheet lib [] cw ch = Inl (PIL_error exc)"
  by (simp add: create_new_spritesheet_def total_area_def math_ceil_sqrt_0
        next_power_of_two_def raise_if_def bindE_def)

lemma create_new_spritesheet_length:
  assumes "create_new_spritesheet lib cat cw ch = Inr (img, new)"
  shows "length new = length cat"
  using assms unfolding create_new_spritesheet_Inr_iff by auto

lemma map_nth_comp: "map (\<lambda>i. f (xs ! i)) [0..<length xs] = map f xs"
  by (rule nth_equalityI) auto

section \<open>The rewriter\<close>

lemma rewrite_sub_texture_Inr:
  "rewrite_sub_texture int_of str_of cat new e = Inr e' \<longleftrightarrow>
     (\<exists>s i. sprite_of_element int_of e = Inr s \<and> index_of cat s = Some i \<and>
        i < length new \<and>
        e' = e\<lparr>attrib := (\<lambda>k.
          if k \<in> {''frameX'', ''frameY'', ''frameWidth'', ''frameHeight'', ''rotated''} then None
          else if k = ''x'' then Some (str_of (x (new ! i)))
          else if k = ''y'' then Some (str_of (y (new ! i)))
          else if k = ''width'' then Some (str_of (width (new ! i)))
          else if k = ''height'' then Some (str_of (height (new ! i)))
          else attrib e k)\<rparr>)"
proof -
  have fold_eq: "\<And>ns. foldl (\<lambda>a attr. a(attr := None))
            ((attrib e)(''x'' \<mapsto> str_of (x ns), ''y'' \<mapsto> str_of (y ns),
               ''width'' \<mapsto> str_of (width ns), ''height'' \<mapsto> str_of (height ns)))
            [''frameX'', ''frameY'', ''frameWidth'', ''frameHeight'', ''rotated'']
          = (\<lambda>k.
          if k \<in> {''frameX'', ''frameY'', ''frameWidth'', ''frameHeight'', ''rotated''} then None
          else if k = ''x'' then Some (str_of (x ns))
          else if k = ''y'' then Some (str_of (y ns))
          else if k = ''width'' then Some (str_of (width ns))
          else if k = ''height'' then Some (str_of (height ns))
          else attrib e k)"
    by (rule ext) simp
  show ?thesis
    unfolding rewrite_sub_texture_def Let_def fold_eq bindE_eq_Inr
    by (auto split: option.splits if_splits)
qed

lemma rewrite_sub_texture_Inl:
  "rewrite_sub_texture int_of str_of cat new e = Inl err \<Longrightarrow>
     sprite_of_element int_of e = Inl err \<or>
     (\<exists>s. sprite_of_element int_of e = Inr s \<and>
        (index_of cat s = None \<and> err = ValueError_not_in_list \<or>
         (\<exists>i. index_of cat s = Some i \<and> \<not> i < length new \<and> err = IndexError)))"
  unfolding rewrite_sub_texture_def bindE_eq_Inl
  by (auto simp: Let_def split: option.splits if_splits)

lemma update_xml_Inr:
  "update_xml_with_new_sprites int_of str_of xml_root cat new = Inr xml_root' \<longleftrightarrow>
     list_all2 (\<lambda>e e'. if tag e = ''SubTexture''
                  then rewrite_sub_texture int_of str_of cat new e = Inr e' else e' = e)
       xml_root xml_root'"
proof (induction xml_root arbitrary: xml_root')
  case Nil
  then show ?case by auto
next
  case (Cons e es)
  show ?case
    by (cases xml_root') (auto simp: bindE_eq_Inr Cons.IH)
qed

lemma update_xml_Inl:
  "update_xml_with_new_sprites int_of str_of xml_root cat new = Inl err \<Longrightarrow>
     \<exists>e \<in> set (findall xml_root ''SubTexture'').
        rewrite_sub_texture int_of str_of cat new e = Inl err"
proof (induction xml_root)
  case Nil
  then show ?case by simp
next
  case (Cons e es)
  then show ?case
    by (auto simp: bindE_eq_Inl findall_def split: if_splits)
qed

lemma update_xml_total:
  "(\<forall>e \<in> set (findall xml_root ''SubTexture'').
      \<exists>e'. rewrite_sub_texture int_of str_of cat new e = Inr e') \<Longrightarrow>
   \<exists>xml_root'. update_xml_with_new_sprites int_of str_of xml_root cat new = Inr xml_root'"
proof (induction xml_root)
  case Nil
  then show ?case by simp
next
  case (Cons e es)
  then show ?case by (fastforce simp: findall_def)
qed

section \<open>The sample document, evaluated\<close>

lemma int_literal_examples:
  "int_literal ''-12'' = Some (- 12)"
  "int_literal ''+5'' = Some 5"
  "int_literal '' 7 '' = Some 7"
  "int_literal ''1_0'' = Some 10"
  "int_literal ''007'' = Some 7"
  "int_literal ''5__0'' = None"
  "int_literal ''- 5'' = None"
  "int_literal ''1.0'' = None"
  "int_literal [] = None"
  by (simp_all add: int_literal_def unsigned_literal_def strip_space_def is_space_def
        digit_value_def)

lemmas literal_simps =
  findall_def sub_texture_of_def sprite_of_element_def py_int_def py_int_default_0_def
  py_bool_default_False_def int_literal_def unsigned_literal_def strip_space_def is_space_def
      digit_value_def new_Sprite_def post_init_def

lemma sample_root_length: "length sample_root = 5"
  by (simp add: sample_root_def)

lemma sample_elements:
  "map (sprite_of_element int_literal) (findall sample_root ''SubTexture'') =
     map Inr sample_sprites"
  by (simp add: sample_root_def sample_sprites_def sample_catalog_def findall_def sub_texture_of_def
      sprite_of_element_def py_int_def py_int_default_0_def py_bool_default_False_def
      int_literal_def unsigned_literal_def strip_space_def is_space_def
      digit_value_def new_Sprite_def post_init_def)

lemma sample_parse:
  "parse_sprites int_literal sample_root = Inr (sample_catalog, 16, 20)"
  by (simp add: parse_sprites_def sample_root_def sample_sprites_def sample_catalog_def findall_def sub_texture_of_def
      sprite_of_element_def py_int_def py_int_default_0_def py_bool_default_False_def
      int_literal_def unsigned_literal_def strip_space_def is_space_def
      digit_value_def new_Sprite_def post_init_def contains_def sprite_eq_def
      next_multiple_4)

lemma sample_catalog_length: "length sample_catalog = 3"
  by (simp add: sample_catalog_def)

lemma sample_area: "math_ceil_sqrt (int (length sample_catalog) * 16 * 20) = Inr 31"
  by (simp only: sample_catalog_length) (simp add: math_ceil_sqrt_960)

lemma list3: "length xs = 3 \<Longrightarrow> xs = [xs ! 0, xs ! Suc 0, xs ! Suc (Suc 0)]"
  by (auto simp: list_eq_iff_nth_eq less_Suc_eq numeral_3_eq_3)

lemma sample_lookup_1:
  "idx < 3 \<Longrightarrow>
   sprite_eq (sample_catalog ! idx)
     \<lparr>name = Some ''idle1'', x = 8, y = 0, width = 4, height = 3,
      pos_x = 0, pos_y = -1, rotated = True\<rparr> \<Longrightarrow> idx = Suc 0"
  by (auto simp: less_Suc_eq numeral_3_eq_3 sprite_eq_def sample_catalog_def)

lemma nat_digits_numeral:
  "nat_digits (numeral v) =
     (if numeral v < (10::nat) then [''0123456789'' ! numeral v]
      else nat_digits (numeral v div 10) @ [''0123456789'' ! (numeral v mod 10)])"
  by (rule nat_digits.simps)

lemma nat_digits_0: "nat_digits 0 = ''0''"
  by (simp add: nat_digits.simps)

lemma nat_digits_1: "nat_digits (Suc 0) = ''1''"
  by (simp add: nat_digits.simps)

lemma int_str_sample: "int_str 0 = ''0''" "int_str 16 = ''16''" "int_str 20 = ''20''"
  by (simp_all add: int_str_def nat_digits_numeral nat_digits_0 nat_digits_1)

lemma sample_calls_return: "calls_return checking_library 32 16 20 sample_catalog"
  unfolding calls_return_def sample_catalog_length
  by (simp add: checking_library_def paste_of_def sample_catalog_def
        numeral_3_eq_3 less_Suc_eq)

lemma sample_returns_condition:
  "\<exists>r. math_ceil_sqrt (int (length sample_catalog) * 16 * 20) = Inr r \<and>
       calls_return checking_library (next_power_of_two r) 16 20 sample_catalog"
  using sample_area sample_calls_return by (intro exI [of _ 31]) (simp add: next_power_of_two_31)

lemma sample_create:
  "create_new_spritesheet checking_library sample_catalog 16 20 =
     Inr (atlas_after (next_power_of_two 31) 16 20 sample_catalog (length sample_catalog),
          map (\<lambda>i. new_Sprite (name (sample_catalog ! i))
                  (fst (grid_cursor (next_power_of_two 31) 16 20 i))
                  (snd (grid_cursor (next_power_of_two 31) 16 20 i))
                  16 20 0 0 False) [0..<length sample_catalog])"
  unfolding create_new_spritesheet_Inr_iff
  using sample_area sample_calls_return
  by (intro exI [of _ 31]) (simp add: next_power_of_two_31)

lemma checking_library_limit:
  "2 ^ 26 \<le> s \<Longrightarrow> new_raises checking_library (s, s) \<noteq> None"
proof -
  assume s: "(2::int) ^ 26 \<le> s"
  then have "(2::int) ^ 26 * 2 ^ 26 \<le> s * s" by (intro mult_mono) simp_all
  then have "(2::int) ^ 52 \<le> s * s" by simp
  then show ?thesis by (simp add: checking_library_def)
qed

text \<open>
  A catalog on which this library raises: a sprite of width \<open>- 3\<close> gives the crop box
  \<open>(0, 7, - 3, 11)\<close>, and the exception of the crop ends \<^verbatim>\<open>create_new_spritesheet\<close>.
\<close>

lemma create_new_spritesheet_crop_raises:
  "create_new_spritesheet checking_library
     [\<lparr>name = Some ''bad'', x = 0, y = 7, width = - 3, height = 4,
       pos_x = 0, pos_y = 0, rotated = False\<rparr>] 0 4 = Inl (PIL_error ''ValueError'')"
  by (simp add: create_new_spritesheet_def total_area_def math_ceil_sqrt_0
        next_power_of_two_def repack_body_def raise_if_def bindE_def checking_library_def)

section \<open>The run as a whole\<close>

text \<open>
  Two facts about what \<^verbatim>\<open>parse_sprites\<close> hands on. Every catalog entry is the first one
  equal to itself, so no two entries are equal by \<^verbatim>\<open>__eq__\<close> and \<^verbatim>\<open>index\<close> maps an entry to
  its own position. The cell sizes are multiples of 4, not negative, and cover every
  sprite, so the area given to \<^verbatim>\<open>math.sqrt\<close> is never negative in a run.
\<close>

lemma index_of_append_Some:
  "index_of xs v = Some i \<Longrightarrow> index_of (xs @ ys) v = Some i"
  by (induction xs arbitrary: i) (auto split: if_splits)

lemma index_of_append_new:
  "\<not> contains xs v \<Longrightarrow> index_of (xs @ [v]) v = Some (length xs)"
  by (induction xs) (simp_all add: contains_Cons sprite_eq_refl)

lemma parse_loop_unique:
  "parse_loop int_of es (sl, mw, mh) = Inr (sl', mw', mh') \<Longrightarrow>
   (\<forall>i<length sl. index_of sl (sl ! i) = Some i) \<Longrightarrow>
   (\<forall>i<length sl'. index_of sl' (sl' ! i) = Some i)"
proof (induction es arbitrary: sl mw mh)
  case Nil
  then show ?case by simp
next
  case (Cons e es)
  from Cons.prems(1) obtain s where s: "sprite_of_element int_of e = Inr s"
    and rest: "parse_loop int_of es
         (if \<not> contains sl s then sl @ [s] else sl,
          max mw (width s - pos_x s), max mh (height s - pos_y s)) = Inr (sl', mw', mh')"
    by (auto simp: bindE_eq_Inr)
  have "\<forall>i<length (if \<not> contains sl s then sl @ [s] else sl).
          index_of (if \<not> contains sl s then sl @ [s] else sl)
            ((if \<not> contains sl s then sl @ [s] else sl) ! i) = Some i"
    using Cons.prems(2)
    by (auto simp: nth_append less_Suc_eq index_of_append_Some index_of_append_new)
  from Cons.IH [OF rest this] show ?case .
qed

lemma catalog_unique:
  assumes "parse_sprites int_of xml_root = Inr (cat, mw, mh)"
  shows "(\<forall>i<length cat. index_of cat (cat ! i) = Some i)
     \<and> (\<forall>i<length cat. \<forall>j<length cat. sprite_eq (cat ! i) (cat ! j) \<longrightarrow> i = j)"
proof -
  from assms obtain st where
    st: "parse_loop int_of (findall xml_root ''SubTexture'') ([], 0, 0) = Inr st"
    and fin: "(case st of (sprite_list, max_width, max_height) \<Rightarrow>
       bindE (next_multiple max_width SPRITE_SIZE_MULTIPLE) (\<lambda>max_width'.
       bindE (next_multiple max_height SPRITE_SIZE_MULTIPLE) (\<lambda>max_height'.
       Inr (sprite_list, max_width', max_height')))) = Inr (cat, mw, mh)"
    unfolding parse_sprites_def bindE_eq_Inr by blast
  obtain sl w0 h0 where st_eq: "st = (sl, w0, h0)" by (cases st) auto
  from fin have "sl = cat" unfolding st_eq by (simp add: next_multiple_4)
  with st have loop:
    "parse_loop int_of (findall xml_root ''SubTexture'') ([], 0, 0) = Inr (cat, w0, h0)"
    by (simp add: st_eq)
  have first: "\<forall>i<length cat. index_of cat (cat ! i) = Some i"
    by (rule parse_loop_unique [OF loop]) simp
  have "i = j" if "i < length cat" "j < length cat" "sprite_eq (cat ! i) (cat ! j)" for i j
  proof (rule ccontr)
    assume ne: "i \<noteq> j"
    from first that have fi: "index_of cat (cat ! i) = Some i"
      and fj: "index_of cat (cat ! j) = Some j" by simp_all
    from index_of_Some [OF fi] have mi: "\<forall>k<i. \<not> sprite_eq (cat ! k) (cat ! i)" by simp
    from index_of_Some [OF fj] have mj: "\<forall>k<j. \<not> sprite_eq (cat ! k) (cat ! j)" by simp
    from ne consider "i < j" | "j < i" by linarith
    then show False
    proof cases
      case 1
      with mj that(3) show False by blast
    next
      case 2
      with mi sprite_eq_sym [OF that(3)] show False by blast
    qed
  qed
  with first show ?thesis by blast
qed

lemma cell_sizes:
  assumes "parse_sprites int_of xml_root = Inr (cat, mw, mh)"
  shows "0 \<le> mw \<and> mw mod 4 = 0 \<and> 0 \<le> mh \<and> mh mod 4 = 0
     \<and> (\<forall>s \<in> set cat. width s - pos_x s \<le> mw \<and> height s - pos_y s \<le> mh)
     \<and> generate_new_spritesheet lib int_of str_of xml_root \<noteq> Inl ValueError_math_domain"
proof -
  from parse_sprites_Inr [OF assms] obtain recs where
    w: "next_multiple (Max (insert 0 ((\<lambda>s. width s - pos_x s) ` set recs)))
         SPRITE_SIZE_MULTIPLE = Inr mw"
    and h: "next_multiple (Max (insert 0 ((\<lambda>s. height s - pos_y s) ` set recs)))
         SPRITE_SIZE_MULTIPLE = Inr mh"
    and sub: "set cat \<subseteq> set recs"
    by blast
  define W where "W = Max (insert 0 ((\<lambda>s. width s - pos_x s) ` set recs))"
  define H where "H = Max (insert 0 ((\<lambda>s. height s - pos_y s) ` set recs))"
  have W0: "0 \<le> W" unfolding W_def by (rule Max_ge) simp_all
  have H0: "0 \<le> H" unfolding H_def by (rule Max_ge) simp_all
  have Ws: "width s - pos_x s \<le> W" if "s \<in> set recs" for s
    unfolding W_def using that by (intro Max_ge) auto
  have Hs: "height s - pos_y s \<le> H" if "s \<in> set recs" for s
    unfolding H_def using that by (intro Max_ge) auto
  from w have mw: "mw = (if W mod 4 \<noteq> 0 then W + (4 - W mod 4) else W)"
    unfolding next_multiple_4 W_def [symmetric] by simp
  from h have mh: "mh = (if H mod 4 \<noteq> 0 then H + (4 - H mod 4) else H)"
    unfolding next_multiple_4 H_def [symmetric] by simp
  have a: "0 \<le> mw \<and> mw mod 4 = 0 \<and> W \<le> mw" using W0 unfolding mw by presburger
  have b: "0 \<le> mh \<and> mh mod 4 = 0 \<and> H \<le> mh" using H0 unfolding mh by presburger
  have c: "\<forall>s \<in> set cat. width s - pos_x s \<le> mw \<and> height s - pos_y s \<le> mh"
    using Ws Hs a b sub by (meson order_trans subsetD)
  have "0 \<le> int (length cat) * mw * mh" using a b by simp
  then have "math_ceil_sqrt (int (length cat) * mw * mh) \<noteq> Inl ValueError_math_domain"
    by (auto simp: math_ceil_sqrt_def split: option.splits)
  then have d: "create_new_spritesheet lib cat mw mh \<noteq> Inl ValueError_math_domain"
    by (auto dest: create_new_spritesheet_Inl)
  have e: "generate_new_spritesheet lib int_of str_of xml_root \<noteq> Inl ValueError_math_domain"
  proof
    assume g: "generate_new_spritesheet lib int_of str_of xml_root = Inl ValueError_math_domain"
    show False
    proof (cases "create_new_spritesheet lib cat mw mh")
      case (Inl err)
      with g assms d show False by (simp add: generate_new_spritesheet_def)
    next
      case (Inr res)
      obtain img new where res: "res = (img, new)" by (cases res) auto
      from g assms Inr
      have "update_xml_with_new_sprites int_of str_of xml_root cat new
              = Inl ValueError_math_domain"
        by (simp add: generate_new_spritesheet_def res bindE_eq_Inl)
      from update_xml_Inl [OF this] obtain el where
        "rewrite_sub_texture int_of str_of cat new el = Inl ValueError_math_domain" by blast
      from rewrite_sub_texture_Inl [OF this] show False
        by (auto dest: sprite_of_element_errors)
    qed
  qed
  from a b c e show ?thesis by blast
qed

section \<open>The claims\<close>

subsection \<open>C1: construction-time normalization\<close>

text \<open>
  Claim C1. Constructing a sprite with \<^verbatim>\<open>rotated\<close> true stores the raw height as
  \<^verbatim>\<open>width\<close>, the raw width as \<^verbatim>\<open>height\<close>, the raw \<^verbatim>\<open>pos_y\<close> as \<^verbatim>\<open>pos_x\<close> and the raw
  \<^verbatim>\<open>pos_x\<close> as \<^verbatim>\<open>pos_y\<close>; with \<^verbatim>\<open>rotated\<close> false all six geometry fields are the raw
  values. In both cases \<^verbatim>\<open>name\<close>, \<^verbatim>\<open>x\<close>, \<^verbatim>\<open>y\<close> and the \<^verbatim>\<open>rotated\<close> flag are the raw ones.
\<close>

theorem C1_construction_normalizes:
  "new_Sprite n x0 y0 w h px py True =
     \<lparr>name = n, x = x0, y = y0, width = h, height = w,
      pos_x = py, pos_y = px, rotated = True\<rparr>
   \<and> new_Sprite n x0 y0 w h px py False =
     \<lparr>name = n, x = x0, y = y0, width = w, height = h,
      pos_x = px, pos_y = py, rotated = False\<rparr>"
  by (simp add: new_Sprite_def post_init_def)

theorem C1_construction_normalizes_witness:
  "new_Sprite (Some ''idle'') 3 5 10 20 (-1) (-2) True =
     \<lparr>name = Some ''idle'', x = 3, y = 5, width = 20, height = 10,
      pos_x = -2, pos_y = -1, rotated = True\<rparr>
   \<and> new_Sprite (Some ''idle'') 3 5 10 20 (-1) (-2) False =
     \<lparr>name = Some ''idle'', x = 3, y = 5, width = 10, height = 20,
      pos_x = -1, pos_y = -2, rotated = False\<rparr>"
  using C1_construction_normalizes [of "Some ''idle''" 3 5 10 20 "-1" "-2"] by simp

subsection \<open>C2: the new records and the grid\<close>

text \<open>
  Claim C2. Whenever \<^verbatim>\<open>create_new_spritesheet\<close> returns, it returns one new record per
  catalog entry, in the same order, and an image that is a square of side
  \<open>next_power_of_two r\<close>, \<open>r\<close> being the value of \<^verbatim>\<open>math.ceil(math.sqrt(total_area))\<close>
  for the area \<open>count * cell_w * cell_h\<close>.
  Record \<open>i\<close> has width \<open>cell_w\<close>, height \<open>cell_h\<close>, offset \<open>(0, 0)\<close>, \<^verbatim>\<open>rotated\<close> false,
  and its \<open>(x, y)\<close> is the position of the row-major cursor of the specification for
  entry \<open>i\<close>: start at \<open>(0, 0)\<close>, before placing wrap to \<open>(0, cursor_y + cell_h)\<close> when
  \<open>cursor_x + cell_w\<close> exceeds the side, after placing advance by \<open>cell_w\<close>.
  The function returns exactly when the computation of the side raises nothing and no
  call into the image library raises: neither \<^verbatim>\<open>Image.new\<close> nor the crop, the
  transposition or the paste of any entry. Otherwise it raises and there are no records.
  (By \<open>math_ceil_sqrt_returns\<close> the side is computed for every area from 0 up to
  \<open>2 ^ 1023\<close>, and by \<open>cell_sizes\<close> the area is not negative when the cell sizes come
  from the parser.)
\<close>

theorem C2_repacker_grid:
  "(create_new_spritesheet lib cat cell_w cell_h = Inr (img, new) \<longrightarrow>
      (\<exists>r. math_ceil_sqrt (int (length cat) * cell_w * cell_h) = Inr r \<and>
           atlas_size img = (next_power_of_two r, next_power_of_two r)) \<and>
      length new = length cat \<and>
      (\<forall>i<length cat.
         width (new ! i) = cell_w \<and> height (new ! i) = cell_h \<and>
         pos_x (new ! i) = 0 \<and> pos_y (new ! i) = 0 \<and> \<not> rotated (new ! i) \<and>
         (x (new ! i), y (new ! i)) = grid_cursor (fst (atlas_size img)) cell_w cell_h i))
   \<and> ((\<exists>img new. create_new_spritesheet lib cat cell_w cell_h = Inr (img, new)) \<longleftrightarrow>
        (\<exists>r. math_ceil_sqrt (int (length cat) * cell_w * cell_h) = Inr r \<and>
             calls_return lib (next_power_of_two r) cell_w cell_h cat))"
proof (intro conjI impI)
  assume "create_new_spritesheet lib cat cell_w cell_h = Inr (img, new)"
  then obtain r where r: "math_ceil_sqrt (int (length cat) * cell_w * cell_h) = Inr r"
    and img: "img = atlas_after (next_power_of_two r) cell_w cell_h cat (length cat)"
    and new: "new = map (\<lambda>i. new_Sprite (name (cat ! i))
                  (fst (grid_cursor (next_power_of_two r) cell_w cell_h i))
                  (snd (grid_cursor (next_power_of_two r) cell_w cell_h i))
                  cell_w cell_h 0 0 False) [0..<length cat]"
    unfolding create_new_spritesheet_Inr_iff by blast
  show "\<exists>r. math_ceil_sqrt (int (length cat) * cell_w * cell_h) = Inr r \<and>
           atlas_size img = (next_power_of_two r, next_power_of_two r)"
    using r img by (auto simp: atlas_after_def)
  show "length new = length cat" by (simp add: new)
  show "\<forall>i<length cat.
         width (new ! i) = cell_w \<and> height (new ! i) = cell_h \<and>
         pos_x (new ! i) = 0 \<and> pos_y (new ! i) = 0 \<and> \<not> rotated (new ! i) \<and>
         (x (new ! i), y (new ! i)) = grid_cursor (fst (atlas_size img)) cell_w cell_h i"
    by (simp add: new img atlas_after_def)
next
  show "(\<exists>img new. create_new_spritesheet lib cat cell_w cell_h = Inr (img, new)) \<longleftrightarrow>
        (\<exists>r. math_ceil_sqrt (int (length cat) * cell_w * cell_h) = Inr r \<and>
             calls_return lib (next_power_of_two r) cell_w cell_h cat)"
    by (rule create_new_spritesheet_returns_iff)
qed

text \<open>
  On the catalog of the sample document with cells of 16 by 20 no call raises, the side
  is 32 and the three cells lie at \<open>(0, 0)\<close>, \<open>(16, 0)\<close> and, after a wrap, \<open>(0, 20)\<close>.
\<close>

theorem C2_repacker_grid_witness:
  "\<exists>img new.
      create_new_spritesheet checking_library sample_catalog 16 20 = Inr (img, new) \<and>
      atlas_size img = (32, 32) \<and>
      map (\<lambda>s. (x s, y s, width s, height s, pos_x s, pos_y s, rotated s)) new =
        [(0, 0, 16, 20, 0, 0, False), (16, 0, 16, 20, 0, 0, False),
         (0, 20, 16, 20, 0, 0, False)]"
proof -
  note t = C2_repacker_grid [of checking_library sample_catalog 16 20]
  from t sample_returns_condition obtain img new where
    c: "create_new_spritesheet checking_library sample_catalog 16 20 = Inr (img, new)"
    by blast
  with t [of img new] sample_area have sz: "atlas_size img = (32, 32)"
    and len: "length new = 3"
    and each: "\<forall>i<3. width (new ! i) = 16 \<and> height (new ! i) = 20 \<and>
        pos_x (new ! i) = 0 \<and> pos_y (new ! i) = 0 \<and> \<not> rotated (new ! i) \<and>
        (x (new ! i), y (new ! i)) = grid_cursor (fst (atlas_size img)) 16 20 i"
    by (auto simp: sample_catalog_length next_power_of_two_31)
  from each have e: "\<forall>i<3. width (new ! i) = 16 \<and> height (new ! i) = 20 \<and>
        pos_x (new ! i) = 0 \<and> pos_y (new ! i) = 0 \<and> \<not> rotated (new ! i) \<and>
        (x (new ! i), y (new ! i)) = grid_cursor 32 16 20 i"
    by (simp add: sz)
  have m: "map (\<lambda>s. (x s, y s, width s, height s, pos_x s, pos_y s, rotated s)) new =
        [(0, 0, 16, 20, 0, 0, False), (16, 0, 16, 20, 0, 0, False),
         (0, 20, 16, 20, 0, 0, False)]"
    using e [rule_format, of 0] e [rule_format, of "Suc 0"] e [rule_format, of "Suc (Suc 0)"]
    by (subst list3 [OF len]) (simp add: wrap_cursor_def)
  show ?thesis
    by (intro conjI exI [of _ img] exI [of _ new]) (rule c sz m)+
qed

subsection \<open>C3: the side of the new atlas\<close>

text \<open>
  Claim C3. Whenever \<^verbatim>\<open>create_new_spritesheet\<close> returns for a catalog of \<open>n\<close> entries,
  the atlas is a square of side \<open>next_power_of_two (ceil (sqrt (n * cell_w * cell_h)))\<close>,
  the square root and the ceiling being the exact real ones, provided that the area
  \<open>n * cell_w * cell_h\<close> is below \<open>2 ^ 52\<close> or the image library raises when it is asked
  for a square image of side \<open>2 ^ 26\<close> or more (an RGBA image of \<open>2 ^ 54\<close> bytes). The
  code takes the square root in double precision, which gives the exact ceiling for every
  area below \<open>2 ^ 52\<close> (\<open>math_ceil_sqrt_exact\<close>); from \<open>2 ^ 52\<close> on the computed side is
  at least \<open>2 ^ 26\<close> (\<open>math_ceil_sqrt_lower\<close>), so that \<^verbatim>\<open>Image.new\<close> of such a library
  raises and there is no atlas. For an area from 0 up to \<open>2 ^ 52\<close> the function returns
  exactly when no call into the image library raises for the square of that side.
  \<open>next_power_of_two 0 = 1\<close>; for a positive argument \<open>next_power_of_two\<close> returns the
  smallest power of two greater than or equal to it; \<open>next_power_of_two 5 = 8\<close> and
  \<open>next_power_of_two 16 = 16\<close>.
\<close>

theorem C3_atlas_side:
  "(create_new_spritesheet lib cat cell_w cell_h = Inr (img, new) \<and>
    (int (length cat) * cell_w * cell_h < 2 ^ 52 \<or>
     (\<forall>s. 2 ^ 26 \<le> s \<longrightarrow> new_raises lib (s, s) \<noteq> None)) \<longrightarrow>
      atlas_size img =
        (next_power_of_two \<lceil>sqrt (real_of_int (int (length cat) * cell_w * cell_h))\<rceil>,
         next_power_of_two \<lceil>sqrt (real_of_int (int (length cat) * cell_w * cell_h))\<rceil>))
   \<and> (0 \<le> int (length cat) * cell_w * cell_h \<and> int (length cat) * cell_w * cell_h < 2 ^ 52 \<longrightarrow>
        ((\<exists>img new. create_new_spritesheet lib cat cell_w cell_h = Inr (img, new)) \<longleftrightarrow>
         calls_return lib
           (next_power_of_two \<lceil>sqrt (real_of_int (int (length cat) * cell_w * cell_h))\<rceil>)
           cell_w cell_h cat))
   \<and> next_power_of_two 0 = 1
   \<and> (0 < m \<longrightarrow>
        (\<exists>k. next_power_of_two m = 2 ^ k \<and> m \<le> 2 ^ k \<and> (\<forall>j. m \<le> 2 ^ j \<longrightarrow> k \<le> j)))
   \<and> next_power_of_two 5 = 8
   \<and> next_power_of_two 16 = 16"
proof (intro conjI impI)
  define a where "a = int (length cat) * cell_w * cell_h"
  assume "create_new_spritesheet lib cat cell_w cell_h = Inr (img, new) \<and>
    (int (length cat) * cell_w * cell_h < 2 ^ 52 \<or>
     (\<forall>s. 2 ^ 26 \<le> s \<longrightarrow> new_raises lib (s, s) \<noteq> None))"
  then have c: "create_new_spritesheet lib cat cell_w cell_h = Inr (img, new)"
    and lib: "a < 2 ^ 52 \<or> (\<forall>s. 2 ^ 26 \<le> s \<longrightarrow> new_raises lib (s, s) \<noteq> None)"
    by (simp_all add: a_def)
  from c obtain r where r: "math_ceil_sqrt a = Inr r"
    and ok: "calls_return lib (next_power_of_two r) cell_w cell_h cat"
    and img: "img = atlas_after (next_power_of_two r) cell_w cell_h cat (length cat)"
    unfolding create_new_spritesheet_Inr_iff a_def by blast
  have new_ok: "new_raises lib (next_power_of_two r, next_power_of_two r) = None"
    using ok by (simp add: calls_return_def)
  have nonneg: "0 \<le> a"
    using r by (auto simp: math_ceil_sqrt_def split: option.splits if_splits)
  have small: "a < 2 ^ 52"
  proof (rule ccontr)
    assume "\<not> a < 2 ^ 52"
    then have "2 ^ 52 \<le> a" by simp
    then have r26: "2 ^ 26 \<le> r" using r by (rule math_ceil_sqrt_lower)
    then have "0 < r" by (rule less_le_trans [rotated]) simp
    from next_power_of_two_least [OF this] have "r \<le> next_power_of_two r" by auto
    with r26 have "2 ^ 26 \<le> next_power_of_two r" by (rule order_trans)
    with lib \<open>\<not> a < 2 ^ 52\<close> new_ok show False by auto
  qed
  have "math_ceil_sqrt a = Inr \<lceil>sqrt (real_of_int a)\<rceil>"
    using nonneg small by (rule math_ceil_sqrt_exact)
  with r have "r = \<lceil>sqrt (real_of_int a)\<rceil>" by simp
  then show "atlas_size img =
        (next_power_of_two \<lceil>sqrt (real_of_int (int (length cat) * cell_w * cell_h))\<rceil>,
         next_power_of_two \<lceil>sqrt (real_of_int (int (length cat) * cell_w * cell_h))\<rceil>)"
    by (simp add: img atlas_after_def a_def)
next
  assume a: "0 \<le> int (length cat) * cell_w * cell_h \<and> int (length cat) * cell_w * cell_h < 2 ^ 52"
  then have "math_ceil_sqrt (int (length cat) * cell_w * cell_h) =
      Inr \<lceil>sqrt (real_of_int (int (length cat) * cell_w * cell_h))\<rceil>"
    by (intro math_ceil_sqrt_exact) simp_all
  then show "(\<exists>img new. create_new_spritesheet lib cat cell_w cell_h = Inr (img, new)) \<longleftrightarrow>
         calls_return lib
           (next_power_of_two \<lceil>sqrt (real_of_int (int (length cat) * cell_w * cell_h))\<rceil>)
           cell_w cell_h cat"
    by (simp add: create_new_spritesheet_returns_iff)
next
  assume "0 < m"
  then show "\<exists>k. next_power_of_two m = 2 ^ k \<and> m \<le> 2 ^ k \<and> (\<forall>j. m \<le> 2 ^ j \<longrightarrow> k \<le> j)"
    by (rule next_power_of_two_least)
qed (simp_all add: next_power_of_two_examples)

text \<open>
  The sample catalog with cells of 16 by 20 has area 960: the side is
  \<open>next_power_of_two 31 = 32\<close>, and 32 is the least power of two from 31 on.
\<close>

theorem C3_atlas_side_witness:
  "(\<exists>img new.
      create_new_spritesheet checking_library sample_catalog 16 20 = Inr (img, new) \<and>
      atlas_size img = (32, 32))
   \<and> (\<exists>k. next_power_of_two 31 = 2 ^ k \<and> 31 \<le> (2::int) ^ k \<and>
           (\<forall>j. 31 \<le> (2::int) ^ j \<longrightarrow> k \<le> j))"
proof -
  have a: "int (length sample_catalog) * 16 * 20 = 960"
    by (simp add: sample_catalog_length)
  note t = C3_atlas_side [of checking_library sample_catalog 16 20 _ _ 31]
  from t sample_calls_return have
    "\<exists>img new. create_new_spritesheet checking_library sample_catalog 16 20 = Inr (img, new)"
    unfolding a ceiling_sqrt_960 next_power_of_two_31 by simp
  then obtain img new where
    c: "create_new_spritesheet checking_library sample_catalog 16 20 = Inr (img, new)"
    by blast
  from t [of img new] c checking_library_limit have sz: "atlas_size img = (32, 32)"
    unfolding a ceiling_sqrt_960 next_power_of_two_31 by blast
  from t [of img new] have k: "\<exists>k. next_power_of_two 31 = 2 ^ k \<and> 31 \<le> (2::int) ^ k \<and>
           (\<forall>j. 31 \<le> (2::int) ^ j \<longrightarrow> k \<le> j)"
    by simp
  show ?thesis
    by (intro conjI exI [of _ img] exI [of _ new]) (rule c sz k)+
qed

subsection \<open>C4: descriptors with the same raw geometry\<close>

text \<open>
  Claim C4, as amended. Let the document have exactly two \<^verbatim>\<open>SubTexture\<close> elements with
  identical \<^verbatim>\<open>x\<close>, \<^verbatim>\<open>y\<close>, \<^verbatim>\<open>width\<close>, \<^verbatim>\<open>height\<close>, \<^verbatim>\<open>frameX\<close>, \<^verbatim>\<open>frameY\<close> attributes, the first
  of which parses. Then the second parses too, and the catalog is the first sprite alone
  if the two \<^verbatim>\<open>rotated\<close> flags agree or the first sprite has \<open>width = height\<close> and
  \<open>pos_x = pos_y\<close>; otherwise it holds both sprites. The names never matter:
  \<^verbatim>\<open>__eq__\<close> compares the six geometry fields as they are after the swap made at
  construction, and ignores \<^verbatim>\<open>name\<close> and \<^verbatim>\<open>rotated\<close>.
\<close>

theorem C4_duplicate_geometry:
  assumes subs: "findall xml_root ''SubTexture'' = [e1, e2]"
    and same: "\<forall>k \<in> {''x'', ''y'', ''width'', ''height'', ''frameX'', ''frameY''}.
                 attrib e1 k = attrib e2 k"
    and s1: "sprite_of_element int_of e1 = Inr s1"
  shows "\<exists>s2 mw mh.
     sprite_of_element int_of e2 = Inr s2 \<and>
     parse_sprites int_of xml_root =
       Inr (if rotated s2 = rotated s1 \<or> (width s1 = height s1 \<and> pos_x s1 = pos_y s1)
            then [s1] else [s1, s2], mw, mh) \<and>
     sprite_eq s1 (s1\<lparr>name := name s2, rotated := rotated s2\<rparr>)"
proof -
  from s1 obtain vx vy vw vh vpx vpy where
    v: "py_int int_of (attrib e1 ''x'') = Inr vx"
       "py_int int_of (attrib e1 ''y'') = Inr vy"
       "py_int int_of (attrib e1 ''width'') = Inr vw"
       "py_int int_of (attrib e1 ''height'') = Inr vh"
       "py_int_default_0 int_of (attrib e1 ''frameX'') = Inr vpx"
       "py_int_default_0 int_of (attrib e1 ''frameY'') = Inr vpy"
    and s1_eq: "s1 = new_Sprite (attrib e1 ''name'') vx vy vw vh vpx vpy
              (py_bool_default_False (attrib e1 ''rotated''))"
    unfolding sprite_of_element_Inr by blast
  define s2 where "s2 = new_Sprite (attrib e2 ''name'') vx vy vw vh vpx vpy
              (py_bool_default_False (attrib e2 ''rotated''))"
  from same have a: "attrib e2 ''x'' = attrib e1 ''x''" "attrib e2 ''y'' = attrib e1 ''y''"
    "attrib e2 ''width'' = attrib e1 ''width''" "attrib e2 ''height'' = attrib e1 ''height''"
    "attrib e2 ''frameX'' = attrib e1 ''frameX''" "attrib e2 ''frameY'' = attrib e1 ''frameY''"
    by simp_all
  have s2: "sprite_of_element int_of e2 = Inr s2"
    unfolding sprite_of_element_Inr s2_def using v by (simp add: a)
  have eq: "sprite_eq s1 s2 \<longleftrightarrow>
     rotated s2 = rotated s1 \<or> (width s1 = height s1 \<and> pos_x s1 = pos_y s1)"
    unfolding s1_eq s2_def by (auto simp: sprite_eq_def)
  have "parse_sprites int_of xml_root =
     Inr (if sprite_eq s1 s2 then [s1] else [s1, s2],
          (let n = max (max 0 (width s1 - pos_x s1)) (width s2 - pos_x s2)
           in if n mod 4 \<noteq> 0 then n + (4 - n mod 4) else n),
          (let n = max (max 0 (height s1 - pos_y s1)) (height s2 - pos_y s2)
           in if n mod 4 \<noteq> 0 then n + (4 - n mod 4) else n))"
    by (simp add: parse_sprites_def subs s1 s2 contains_def next_multiple_4 Let_def)
  then show ?thesis
    using s2 eq by (auto simp: sprite_eq_def)
qed

text \<open>
  The claim as stated fails when the \<^verbatim>\<open>rotated\<close> values differ and the rectangle is not
  square: the second descriptor becomes a sprite of 20 by 10, which is not equal to the
  first one of 10 by 20, and the catalog has two entries.
\<close>

theorem C4_duplicate_geometry_counterexample:
  "parse_sprites int_literal
     [sub_texture_of [(''name'', ''a''), (''x'', ''0''), (''y'', ''0''),
        (''width'', ''10''), (''height'', ''20'')],
      sub_texture_of [(''name'', ''b''), (''x'', ''0''), (''y'', ''0''),
        (''width'', ''10''), (''height'', ''20''), (''rotated'', ''true'')]]
   = Inr ([\<lparr>name = Some ''a'', x = 0, y = 0, width = 10, height = 20,
            pos_x = 0, pos_y = 0, rotated = False\<rparr>,
           \<lparr>name = Some ''b'', x = 0, y = 0, width = 20, height = 10,
            pos_x = 0, pos_y = 0, rotated = True\<rparr>], 20, 20)"
  by (simp add: parse_sprites_def findall_def sub_texture_of_def
      sprite_of_element_def py_int_def py_int_default_0_def py_bool_default_False_def
      int_literal_def unsigned_literal_def strip_space_def is_space_def
      digit_value_def new_Sprite_def post_init_def contains_def sprite_eq_def
      next_multiple_4)

text \<open>
  Two instances: a different name alone, and a different \<^verbatim>\<open>rotated\<close> value on a square
  rectangle; the catalog has one entry in both.
\<close>

theorem C4_duplicate_geometry_witness:
  "(\<exists>mw mh.
      parse_sprites int_literal
        [sub_texture_of [(''name'', ''a''), (''x'', ''0''), (''y'', ''0''),
           (''width'', ''10''), (''height'', ''20'')],
         sub_texture_of [(''name'', ''b''), (''x'', ''0''), (''y'', ''0''),
           (''width'', ''10''), (''height'', ''20'')]]
      = Inr ([\<lparr>name = Some ''a'', x = 0, y = 0, width = 10, height = 20,
               pos_x = 0, pos_y = 0, rotated = False\<rparr>], mw, mh))
   \<and> (\<exists>mw mh.
      parse_sprites int_literal
        [sub_texture_of [(''name'', ''a''), (''x'', ''0''), (''y'', ''0''),
           (''width'', ''10''), (''height'', ''10'')],
         sub_texture_of [(''name'', ''b''), (''x'', ''0''), (''y'', ''0''),
           (''width'', ''10''), (''height'', ''10''), (''rotated'', ''true'')]]
      = Inr ([\<lparr>name = Some ''a'', x = 0, y = 0, width = 10, height = 10,
               pos_x = 0, pos_y = 0, rotated = False\<rparr>], mw, mh))"
proof (rule conjI)
  define e1 where "e1 = sub_texture_of [(''name'', ''a''), (''x'', ''0''), (''y'', ''0''),
           (''width'', ''10''), (''height'', ''20'')]"
  define e2 where "e2 = sub_texture_of [(''name'', ''b''), (''x'', ''0''), (''y'', ''0''),
           (''width'', ''10''), (''height'', ''20'')]"
  define s1 where "s1 = \<lparr>name = Some ''a'', x = 0, y = 0, width = 10, height = 20,
               pos_x = 0, pos_y = 0, rotated = False\<rparr>"
  have h1: "findall [e1, e2] ''SubTexture'' = [e1, e2]"
    by (simp add: e1_def e2_def findall_def sub_texture_of_def)
  have h2: "\<forall>k \<in> {''x'', ''y'', ''width'', ''height'', ''frameX'', ''frameY''}.
                 attrib e1 k = attrib e2 k"
    by (simp add: e1_def e2_def sub_texture_of_def)
  have h3: "sprite_of_element int_literal e1 = Inr s1"
    by (simp add: e1_def s1_def literal_simps)
  have r: "sprite_of_element int_literal e2 = Inr s2 \<Longrightarrow> rotated s2 = rotated s1" for s2
    by (auto simp: e2_def s1_def literal_simps)
  from C4_duplicate_geometry [OF h1 h2 h3] r
  have "\<exists>mw mh. parse_sprites int_literal [e1, e2] = Inr ([s1], mw, mh)"
    by auto
  then show "\<exists>mw mh.
      parse_sprites int_literal
        [sub_texture_of [(''name'', ''a''), (''x'', ''0''), (''y'', ''0''),
           (''width'', ''10''), (''height'', ''20'')],
         sub_texture_of [(''name'', ''b''), (''x'', ''0''), (''y'', ''0''),
           (''width'', ''10''), (''height'', ''20'')]]
      = Inr ([\<lparr>name = Some ''a'', x = 0, y = 0, width = 10, height = 20,
               pos_x = 0, pos_y = 0, rotated = False\<rparr>], mw, mh)"
    unfolding e1_def e2_def s1_def .
next
  define e1 where "e1 = sub_texture_of [(''name'', ''a''), (''x'', ''0''), (''y'', ''0''),
           (''width'', ''10''), (''height'', ''10'')]"
  define e2 where "e2 = sub_texture_of [(''name'', ''b''), (''x'', ''0''), (''y'', ''0''),
           (''width'', ''10''), (''height'', ''10''), (''rotated'', ''true'')]"
  define s1 where "s1 = \<lparr>name = Some ''a'', x = 0, y = 0, width = 10, height = 10,
               pos_x = 0, pos_y = 0, rotated = False\<rparr>"
  have h1: "findall [e1, e2] ''SubTexture'' = [e1, e2]"
    by (simp add: e1_def e2_def findall_def sub_texture_of_def)
  have h2: "\<forall>k \<in> {''x'', ''y'', ''width'', ''height'', ''frameX'', ''frameY''}.
                 attrib e1 k = attrib e2 k"
    by (simp add: e1_def e2_def sub_texture_of_def)
  have h3: "sprite_of_element int_literal e1 = Inr s1"
    by (simp add: e1_def s1_def literal_simps)
  have sq: "width s1 = height s1 \<and> pos_x s1 = pos_y s1" by (simp add: s1_def)
  from C4_duplicate_geometry [OF h1 h2 h3] sq
  have "\<exists>mw mh. parse_sprites int_literal [e1, e2] = Inr ([s1], mw, mh)"
    by auto
  then show "\<exists>mw mh.
      parse_sprites int_literal
        [sub_texture_of [(''name'', ''a''), (''x'', ''0''), (''y'', ''0''),
           (''width'', ''10''), (''height'', ''10'')],
         sub_texture_of [(''name'', ''b''), (''x'', ''0''), (''y'', ''0''),
           (''width'', ''10''), (''height'', ''10''), (''rotated'', ''true'')]]
      = Inr ([\<lparr>name = Some ''a'', x = 0, y = 0, width = 10, height = 10,
               pos_x = 0, pos_y = 0, rotated = False\<rparr>], mw, mh)"
    unfolding e1_def e2_def s1_def .
qed

subsection \<open>C5: the maxima\<close>

text \<open>
  Claim C5, as amended. If every \<^verbatim>\<open>SubTexture\<close> element parses, to the sprites \<open>recs\<close>
  (all of them, the duplicates that the catalog drops included), then \<^verbatim>\<open>parse_sprites\<close>
  returns, and its \<^verbatim>\<open>max_width\<close> is the greatest of 0 and the \<open>width - pos_x\<close> of all of
  \<open>recs\<close>, rounded by \<^verbatim>\<open>next_multiple\<close> to a multiple of 4; likewise \<^verbatim>\<open>max_height\<close> with
  \<open>height - pos_y\<close>. \<^verbatim>\<open>next_multiple n 4\<close> returns \<open>n\<close> when \<open>n mod 4 = 0\<close> and otherwise the
  smallest multiple of 4 strictly greater than \<open>n\<close>; \<^verbatim>\<open>next_multiple 5 4 = 8\<close> and
  \<^verbatim>\<open>next_multiple 8 4 = 8\<close>.
\<close>

theorem C5_maxima:
  "(map (sprite_of_element int_of) (findall xml_root ''SubTexture'') = map Inr recs \<longrightarrow>
      (\<exists>cat mw mh.
         parse_sprites int_of xml_root = Inr (cat, mw, mh) \<and>
         next_multiple (Max (insert 0 ((\<lambda>s. width s - pos_x s) ` set recs))) 4 = Inr mw \<and>
         next_multiple (Max (insert 0 ((\<lambda>s. height s - pos_y s) ` set recs))) 4 = Inr mh))
   \<and> (n mod 4 = 0 \<longrightarrow> next_multiple n 4 = Inr n)
   \<and> (n mod 4 \<noteq> 0 \<longrightarrow>
        (\<exists>r. next_multiple n 4 = Inr r \<and> r mod 4 = 0 \<and> n < r \<and>
             (\<forall>m. m mod 4 = 0 \<and> n < m \<longrightarrow> r \<le> m)))
   \<and> next_multiple 5 4 = Inr 8
   \<and> next_multiple 8 4 = Inr 8"
proof (intro conjI impI)
  assume a: "map (sprite_of_element int_of) (findall xml_root ''SubTexture'') = map Inr recs"
  from parse_sprites_total[OF a] obtain cat mw mh where
    p: "parse_sprites int_of xml_root = Inr (cat, mw, mh)" by blast
  from parse_sprites_Inr[OF p] obtain recs' where
    r: "map (sprite_of_element int_of) (findall xml_root ''SubTexture'') = map Inr recs'"
    and w: "next_multiple (Max (insert 0 ((\<lambda>s. width s - pos_x s) ` set recs')))
         SPRITE_SIZE_MULTIPLE = Inr mw"
    and h: "next_multiple (Max (insert 0 ((\<lambda>s. height s - pos_y s) ` set recs')))
         SPRITE_SIZE_MULTIPLE = Inr mh"
    by blast
  from a r have "map Inr recs' = (map Inr recs :: (error + Sprite) list)" by simp
  then have "recs' = recs" by (simp add: inj_map_eq_map)
  with p w h show "\<exists>cat mw mh.
         parse_sprites int_of xml_root = Inr (cat, mw, mh) \<and>
         next_multiple (Max (insert 0 ((\<lambda>s. width s - pos_x s) ` set recs))) 4 = Inr mw \<and>
         next_multiple (Max (insert 0 ((\<lambda>s. height s - pos_y s) ` set recs))) 4 = Inr mh"
    by (auto simp: SPRITE_SIZE_MULTIPLE_def)
next
  assume "n mod 4 \<noteq> 0"
  then show "\<exists>r. next_multiple n 4 = Inr r \<and> r mod 4 = 0 \<and> n < r \<and>
             (\<forall>m. m mod 4 = 0 \<and> n < m \<longrightarrow> r \<le> m)"
    by (rule next_multiple_4_least)
qed (simp_all add: next_multiple_def)

text \<open>
  The maxima start at 0, so the claim without the 0 fails where every difference is
  negative: for one descriptor of width 1 and height 1 with \<^verbatim>\<open>frameX\<close> and \<^verbatim>\<open>frameY\<close> 5
  the parser returns 0 and 0, while the maximum of the differences, \<open>- 4\<close>, rounds to
  \<open>- 4\<close>.
\<close>

theorem C5_maxima_counterexample:
  "parse_sprites int_literal
     [sub_texture_of [(''name'', ''a''), (''x'', ''0''), (''y'', ''0''),
        (''width'', ''1''), (''height'', ''1''), (''frameX'', ''5''), (''frameY'', ''5'')]]
   = Inr ([\<lparr>name = Some ''a'', x = 0, y = 0, width = 1, height = 1,
            pos_x = 5, pos_y = 5, rotated = False\<rparr>], 0, 0)
   \<and> next_multiple
        (Max ((\<lambda>s. width s - pos_x s) `
           set [\<lparr>name = Some ''a'', x = 0, y = 0, width = 1, height = 1,
                 pos_x = 5, pos_y = 5, rotated = False\<rparr>])) 4 = Inr (- 4)
   \<and> next_multiple
        (Max ((\<lambda>s. height s - pos_y s) `
           set [\<lparr>name = Some ''a'', x = 0, y = 0, width = 1, height = 1,
                 pos_x = 5, pos_y = 5, rotated = False\<rparr>])) 4 = Inr (- 4)"
  by (simp add: parse_sprites_def findall_def sub_texture_of_def
      sprite_of_element_def py_int_def py_int_default_0_def py_bool_default_False_def
      int_literal_def unsigned_literal_def strip_space_def is_space_def
      digit_value_def new_Sprite_def post_init_def contains_def sprite_eq_def
      next_multiple_4 next_multiple_def SPRITE_SIZE_MULTIPLE_def)

text \<open>
  The sample document: the differences are 10, 4, 15, 10 and 19, 4, 8, 19, so the maxima
  15 and 19 round to 16 and 20.
\<close>

theorem C5_maxima_witness:
  "\<exists>cat. parse_sprites int_literal sample_root = Inr (cat, 16, 20)"
proof -
  from C5_maxima [of int_literal sample_root sample_sprites 5, THEN conjunct1, rule_format,
      OF sample_elements]
  obtain cat mw mh where
    p: "parse_sprites int_literal sample_root = Inr (cat, mw, mh)"
    and w: "next_multiple (Max (insert 0 ((\<lambda>s. width s - pos_x s) ` set sample_sprites))) 4
              = Inr mw"
    and h: "next_multiple (Max (insert 0 ((\<lambda>s. height s - pos_y s) ` set sample_sprites))) 4
              = Inr mh"
    by blast
  from w have "mw = 16"
    by (simp add: sample_sprites_def sample_catalog_def next_multiple_def)
  moreover from h have "mh = 20"
    by (simp add: sample_sprites_def sample_catalog_def next_multiple_def)
  ultimately show ?thesis using p by blast
qed

subsection \<open>C6: the \<^verbatim>\<open>rotated\<close> attribute\<close>

text \<open>
  Claim C6. For a descriptor that parses, the \<^verbatim>\<open>rotated\<close> flag of the sprite is true
  exactly when the element has a \<^verbatim>\<open>rotated\<close> attribute whose value is not the empty
  string: it is true for the text \<^verbatim>\<open>false\<close>, and false for a missing attribute and for
  the empty string.
\<close>

theorem C6_rotated_flag:
  assumes "sprite_of_element int_of sub_texture = Inr sprite"
  shows "(rotated sprite \<longleftrightarrow> (\<exists>v. attrib sub_texture ''rotated'' = Some v \<and> v \<noteq> ''''))
     \<and> (attrib sub_texture ''rotated'' = Some ''false'' \<longrightarrow> rotated sprite)
     \<and> (attrib sub_texture ''rotated'' = None \<longrightarrow> \<not> rotated sprite)
     \<and> (attrib sub_texture ''rotated'' = Some '''' \<longrightarrow> \<not> rotated sprite)"
proof -
  from assms have "rotated sprite = py_bool_default_False (attrib sub_texture ''rotated'')"
    by (auto simp: sprite_of_element_Inr)
  then show ?thesis
    by (auto simp: py_bool_default_False_def split: option.splits)
qed

theorem C6_rotated_flag_witness:
  "sprite_of_element int_literal
     (sub_texture_of [(''name'', ''idle1''), (''x'', ''8''), (''y'', ''0''),
        (''width'', ''3''), (''height'', ''4''), (''frameX'', ''-1''), (''frameY'', ''0''),
        (''rotated'', ''false'')])
   = Inr \<lparr>name = Some ''idle1'', x = 8, y = 0, width = 4, height = 3,
           pos_x = 0, pos_y = -1, rotated = True\<rparr>
   \<and> rotated \<lparr>name = Some ''idle1'', x = 8, y = 0, width = 4, height = 3,
           pos_x = 0, pos_y = -1, rotated = True\<rparr>"
proof -
  have h: "sprite_of_element int_literal
     (sub_texture_of [(''name'', ''idle1''), (''x'', ''8''), (''y'', ''0''),
        (''width'', ''3''), (''height'', ''4''), (''frameX'', ''-1''), (''frameY'', ''0''),
        (''rotated'', ''false'')])
   = Inr \<lparr>name = Some ''idle1'', x = 8, y = 0, width = 4, height = 3,
           pos_x = 0, pos_y = -1, rotated = True\<rparr>"
    by (simp add: literal_simps)
  have a: "attrib (sub_texture_of [(''name'', ''idle1''), (''x'', ''8''), (''y'', ''0''),
        (''width'', ''3''), (''height'', ''4''), (''frameX'', ''-1''), (''frameY'', ''0''),
        (''rotated'', ''false'')]) ''rotated'' = Some ''false''"
    by (simp add: sub_texture_of_def)
  from C6_rotated_flag [OF h, THEN conjunct2, THEN conjunct1, rule_format, OF a] h
  show ?thesis by (rule conjI [rotated])
qed

subsection \<open>C7: crop and paste\<close>

text \<open>
  Claim C7. Whenever \<^verbatim>\<open>create_new_spritesheet\<close> returns, it has made one paste per
  catalog entry, in order. For entry \<open>i\<close>
  the box cropped from the source image is \<open>(x, y, x + height, y + width)\<close> and the crop
  is rotated by 90 degrees if the sprite is \<^verbatim>\<open>rotated\<close>, and the box is
  \<open>(x, y, x + width, y + height)\<close> and the crop is not rotated otherwise; it is pasted at
  \<open>(cursor_x - pos_x, cursor_y - pos_y)\<close>, the cursor being the cell origin of entry \<open>i\<close>,
  which is the \<open>(x, y)\<close> of the new record. For a sprite constructed from the raw values
  \<open>x0, y0, w, h\<close> the box is \<open>(x0, y0, x0 + w, y0 + h)\<close> in both cases, the rectangle
  before the swap. The function returns exactly when the computation of the side raises
  nothing and no call into the image library raises; a crop, a transposition or a paste
  that raises ends it, and nothing is returned.
\<close>

theorem C7_crop_and_paste:
  "(create_new_spritesheet lib cat cell_w cell_h = Inr (img, new) \<longrightarrow>
      length (pastes img) = length cat \<and>
      (\<forall>i<length cat.
         crop_box (pasted (pastes img ! i)) =
           (if rotated (cat ! i)
            then (x (cat ! i), y (cat ! i),
                  x (cat ! i) + height (cat ! i), y (cat ! i) + width (cat ! i))
            else (x (cat ! i), y (cat ! i),
                  x (cat ! i) + width (cat ! i), y (cat ! i) + height (cat ! i))) \<and>
         rotate_90 (pasted (pastes img ! i)) = rotated (cat ! i) \<and>
         paste_at (pastes img ! i) =
           (fst (grid_cursor (fst (atlas_size img)) cell_w cell_h i) - pos_x (cat ! i),
            snd (grid_cursor (fst (atlas_size img)) cell_w cell_h i) - pos_y (cat ! i)) \<and>
         paste_at (pastes img ! i) =
           (x (new ! i) - pos_x (cat ! i), y (new ! i) - pos_y (cat ! i)) \<and>
         (\<forall>n x0 y0 w h px py rot.
            cat ! i = new_Sprite n x0 y0 w h px py rot \<longrightarrow>
            crop_box (pasted (pastes img ! i)) = (x0, y0, x0 + w, y0 + h))))
   \<and> ((\<exists>img new. create_new_spritesheet lib cat cell_w cell_h = Inr (img, new)) \<longleftrightarrow>
        (\<exists>r. math_ceil_sqrt (int (length cat) * cell_w * cell_h) = Inr r \<and>
             calls_return lib (next_power_of_two r) cell_w cell_h cat))"
proof (intro conjI impI)
  assume "create_new_spritesheet lib cat cell_w cell_h = Inr (img, new)"
  then obtain r where
    img: "img = atlas_after (next_power_of_two r) cell_w cell_h cat (length cat)"
    and new: "new = map (\<lambda>i. new_Sprite (name (cat ! i))
                  (fst (grid_cursor (next_power_of_two r) cell_w cell_h i))
                  (snd (grid_cursor (next_power_of_two r) cell_w cell_h i))
                  cell_w cell_h 0 0 False) [0..<length cat]"
    unfolding create_new_spritesheet_Inr_iff by blast
  show "length (pastes img) = length cat" by (simp add: img atlas_after_def)
  show "\<forall>i<length cat.
         crop_box (pasted (pastes img ! i)) =
           (if rotated (cat ! i)
            then (x (cat ! i), y (cat ! i),
                  x (cat ! i) + height (cat ! i), y (cat ! i) + width (cat ! i))
            else (x (cat ! i), y (cat ! i),
                  x (cat ! i) + width (cat ! i), y (cat ! i) + height (cat ! i))) \<and>
         rotate_90 (pasted (pastes img ! i)) = rotated (cat ! i) \<and>
         paste_at (pastes img ! i) =
           (fst (grid_cursor (fst (atlas_size img)) cell_w cell_h i) - pos_x (cat ! i),
            snd (grid_cursor (fst (atlas_size img)) cell_w cell_h i) - pos_y (cat ! i)) \<and>
         paste_at (pastes img ! i) =
           (x (new ! i) - pos_x (cat ! i), y (new ! i) - pos_y (cat ! i)) \<and>
         (\<forall>n x0 y0 w h px py rot.
            cat ! i = new_Sprite n x0 y0 w h px py rot \<longrightarrow>
            crop_box (pasted (pastes img ! i)) = (x0, y0, x0 + w, y0 + h))"
    by (auto simp: img new atlas_after_def paste_of_def)
next
  show "(\<exists>img new. create_new_spritesheet lib cat cell_w cell_h = Inr (img, new)) \<longleftrightarrow>
        (\<exists>r. math_ceil_sqrt (int (length cat) * cell_w * cell_h) = Inr r \<and>
             calls_return lib (next_power_of_two r) cell_w cell_h cat)"
    by (rule create_new_spritesheet_returns_iff)
qed

theorem C7_crop_and_paste_witness:
  "\<exists>img new.
      create_new_spritesheet checking_library sample_catalog 16 20 = Inr (img, new) \<and>
      map (\<lambda>p. (crop_box (pasted p), rotate_90 (pasted p), paste_at p)) (pastes img) =
        [((0, 0, 8, 18), False, (2, 1)),
         ((8, 0, 11, 4), True, (16, 1)),
         ((12, 0, 27, 8), False, (0, 20))]"
proof -
  note t = C7_crop_and_paste [of checking_library sample_catalog 16 20]
  from t sample_returns_condition obtain img new where
    c: "create_new_spritesheet checking_library sample_catalog 16 20 = Inr (img, new)"
    by blast
  then have sz: "atlas_size img = (32, 32)"
    using sample_area
    by (auto simp: create_new_spritesheet_Inr_iff atlas_after_def next_power_of_two_31)
  from t [of img new] c have len: "length (pastes img) = 3"
    and each: "\<forall>i<3.
        crop_box (pasted (pastes img ! i)) =
          (if rotated (sample_catalog ! i)
           then (x (sample_catalog ! i), y (sample_catalog ! i),
                 x (sample_catalog ! i) + height (sample_catalog ! i),
                 y (sample_catalog ! i) + width (sample_catalog ! i))
           else (x (sample_catalog ! i), y (sample_catalog ! i),
                 x (sample_catalog ! i) + width (sample_catalog ! i),
                 y (sample_catalog ! i) + height (sample_catalog ! i))) \<and>
        rotate_90 (pasted (pastes img ! i)) = rotated (sample_catalog ! i) \<and>
        paste_at (pastes img ! i) =
          (fst (grid_cursor (fst (atlas_size img)) 16 20 i) - pos_x (sample_catalog ! i),
           snd (grid_cursor (fst (atlas_size img)) 16 20 i) - pos_y (sample_catalog ! i))"
    unfolding sample_catalog_length by blast+
  have m: "map (\<lambda>p. (crop_box (pasted p), rotate_90 (pasted p), paste_at p)) (pastes img) =
        [((0, 0, 8, 18), False, (2, 1)),
         ((8, 0, 11, 4), True, (16, 1)),
         ((12, 0, 27, 8), False, (0, 20))]"
    using each [rule_format, of 0] each [rule_format, of "Suc 0"]
      each [rule_format, of "Suc (Suc 0)"]
    by (subst list3 [OF len]) (simp add: sz wrap_cursor_def sample_catalog_def)
  show ?thesis
    by (intro conjI exI [of _ img] exI [of _ new]) (rule c m)+
qed

subsection \<open>C8: the rewritten attributes\<close>

text \<open>
  Claim C8. When parsing and repacking have succeeded, the rewrite of the document
  succeeds. Afterwards every \<^verbatim>\<open>SubTexture\<close> element has as \<^verbatim>\<open>x\<close>, \<^verbatim>\<open>y\<close>, \<^verbatim>\<open>width\<close>,
  \<^verbatim>\<open>height\<close> the values (as \<^verbatim>\<open>str\<close> prints them) of the new record at the index of the
  first catalog entry that is equal by geometry to the record derived again from the
  element, and it has none of the attributes \<^verbatim>\<open>frameX\<close>, \<^verbatim>\<open>frameY\<close>, \<^verbatim>\<open>frameWidth\<close>,
  \<^verbatim>\<open>frameHeight\<close>, \<^verbatim>\<open>rotated\<close>. Its other attributes, and the children of the root with
  another tag, are as before.
\<close>

theorem C8_rewritten_attributes:
  assumes p: "parse_sprites int_of xml_root = Inr (cat, mw, mh)"
    and c: "create_new_spritesheet lib cat mw mh = Inr (img, new)"
  shows "\<exists>xml_root'.
     update_xml_with_new_sprites int_of str_of xml_root cat new = Inr xml_root' \<and>
     length xml_root' = length xml_root \<and>
     (\<forall>i<length xml_root.
        if tag (xml_root ! i) = ''SubTexture''
        then (\<exists>s idx.
           sprite_of_element int_of (xml_root ! i) = Inr s \<and>
           idx < length cat \<and> sprite_eq (cat ! idx) s \<and>
           (\<forall>j<idx. \<not> sprite_eq (cat ! j) s) \<and>
           idx < length new \<and>
           tag (xml_root' ! i) = ''SubTexture'' \<and>
           attrib (xml_root' ! i) ''x'' = Some (str_of (x (new ! idx))) \<and>
           attrib (xml_root' ! i) ''y'' = Some (str_of (y (new ! idx))) \<and>
           attrib (xml_root' ! i) ''width'' = Some (str_of (width (new ! idx))) \<and>
           attrib (xml_root' ! i) ''height'' = Some (str_of (height (new ! idx))) \<and>
           attrib (xml_root' ! i) ''frameX'' = None \<and>
           attrib (xml_root' ! i) ''frameY'' = None \<and>
           attrib (xml_root' ! i) ''frameWidth'' = None \<and>
           attrib (xml_root' ! i) ''frameHeight'' = None \<and>
           attrib (xml_root' ! i) ''rotated'' = None \<and>
           (\<forall>k. k \<notin> {''x'', ''y'', ''width'', ''height'', ''frameX'', ''frameY'',
                       ''frameWidth'', ''frameHeight'', ''rotated''} \<longrightarrow>
                attrib (xml_root' ! i) k = attrib (xml_root ! i) k))
        else xml_root' ! i = xml_root ! i)"
proof -
  have len: "length new = length cat" using c by (rule create_new_spritesheet_length)
  have "\<exists>e'. rewrite_sub_texture int_of str_of cat new e = Inr e'"
    if "e \<in> set (findall xml_root ''SubTexture'')" for e
    using lookup_succeeds[OF p that] len
    by (auto simp: rewrite_sub_texture_Inr)
  then obtain xml_root' where
    u: "update_xml_with_new_sprites int_of str_of xml_root cat new = Inr xml_root'"
    using update_xml_total[of xml_root int_of str_of cat new] by blast
  then have l2: "list_all2 (\<lambda>e e'. if tag e = ''SubTexture''
                  then rewrite_sub_texture int_of str_of cat new e = Inr e' else e' = e)
       xml_root xml_root'"
    by (simp add: update_xml_Inr)
  then have l: "length xml_root' = length xml_root" by (simp add: list_all2_lengthD)
  have "if tag (xml_root ! i) = ''SubTexture''
        then (\<exists>s idx.
           sprite_of_element int_of (xml_root ! i) = Inr s \<and>
           idx < length cat \<and> sprite_eq (cat ! idx) s \<and>
           (\<forall>j<idx. \<not> sprite_eq (cat ! j) s) \<and>
           idx < length new \<and>
           tag (xml_root' ! i) = ''SubTexture'' \<and>
           attrib (xml_root' ! i) ''x'' = Some (str_of (x (new ! idx))) \<and>
           attrib (xml_root' ! i) ''y'' = Some (str_of (y (new ! idx))) \<and>
           attrib (xml_root' ! i) ''width'' = Some (str_of (width (new ! idx))) \<and>
           attrib (xml_root' ! i) ''height'' = Some (str_of (height (new ! idx))) \<and>
           attrib (xml_root' ! i) ''frameX'' = None \<and>
           attrib (xml_root' ! i) ''frameY'' = None \<and>
           attrib (xml_root' ! i) ''frameWidth'' = None \<and>
           attrib (xml_root' ! i) ''frameHeight'' = None \<and>
           attrib (xml_root' ! i) ''rotated'' = None \<and>
           (\<forall>k. k \<notin> {''x'', ''y'', ''width'', ''height'', ''frameX'', ''frameY'',
                       ''frameWidth'', ''frameHeight'', ''rotated''} \<longrightarrow>
                attrib (xml_root' ! i) k = attrib (xml_root ! i) k))
        else xml_root' ! i = xml_root ! i"
    if i: "i < length xml_root" for i
  proof (cases "tag (xml_root ! i) = ''SubTexture''")
    case False
    with l2 i show ?thesis by (auto simp: list_all2_conv_all_nth)
  next
    case True
    with l2 i have "rewrite_sub_texture int_of str_of cat new (xml_root ! i) = Inr (xml_root' ! i)"
      by (auto simp: list_all2_conv_all_nth)
    then obtain s idx where s: "sprite_of_element int_of (xml_root ! i) = Inr s"
      and idx: "index_of cat s = Some idx" "idx < length new"
      and e': "xml_root' ! i = (xml_root ! i)\<lparr>attrib := (\<lambda>k.
          if k \<in> {''frameX'', ''frameY'', ''frameWidth'', ''frameHeight'', ''rotated''} then None
          else if k = ''x'' then Some (str_of (x (new ! idx)))
          else if k = ''y'' then Some (str_of (y (new ! idx)))
          else if k = ''width'' then Some (str_of (width (new ! idx)))
          else if k = ''height'' then Some (str_of (height (new ! idx)))
          else attrib (xml_root ! i) k)\<rparr>"
      unfolding rewrite_sub_texture_Inr by blast
    from index_of_Some[OF idx(1)] have f: "idx < length cat" "sprite_eq (cat ! idx) s"
      "\<forall>j<idx. \<not> sprite_eq (cat ! j) s" by simp_all
    show ?thesis
      unfolding e' using True s idx(2) f by (intro if_P [THEN iffD2] exI[of _ s] exI[of _ idx]) simp_all
  qed
  with u l show ?thesis by blast
qed

theorem C8_rewritten_attributes_witness:
  "\<exists>img new xml_root'.
      create_new_spritesheet checking_library sample_catalog 16 20 = Inr (img, new) \<and>
      update_xml_with_new_sprites int_literal int_str sample_root sample_catalog new
        = Inr xml_root' \<and>
      length xml_root' = 5 \<and>
      xml_root' ! 0 = sample_root ! 0 \<and>
      map (attrib (xml_root' ! 2))
        [''name'', ''x'', ''y'', ''width'', ''height'',
         ''frameX'', ''frameY'', ''frameWidth'', ''frameHeight'', ''rotated''] =
        [Some ''idle1'', Some ''16'', Some ''0'', Some ''16'', Some ''20'',
         None, None, None, None, None]"
proof -
  note c = sample_create
  define new where "new = map (\<lambda>i. new_Sprite (name (sample_catalog ! i))
                  (fst (grid_cursor (next_power_of_two 31) 16 20 i))
                  (snd (grid_cursor (next_power_of_two 31) 16 20 i))
                  16 20 0 0 False) [0..<length sample_catalog]"
  have new1: "x (new ! Suc 0) = 16" "y (new ! Suc 0) = 0"
    "width (new ! Suc 0) = 16" "height (new ! Suc 0) = 20"
    by (simp_all add: new_def sample_catalog_length next_power_of_two_31 wrap_cursor_def
        new_Sprite_def post_init_def)
  have e2: "sprite_of_element int_literal (sample_root ! 2) =
      Inr \<lparr>name = Some ''idle1'', x = 8, y = 0, width = 4, height = 3,
           pos_x = 0, pos_y = -1, rotated = True\<rparr>"
    by (simp add: sample_root_def literal_simps)
  have t0: "tag (sample_root ! 0) \<noteq> ''SubTexture''"
    and t2: "tag (sample_root ! 2) = ''SubTexture''"
    and n2: "attrib (sample_root ! 2) ''name'' = Some ''idle1''"
    by (simp_all add: sample_root_def sub_texture_of_def)
  from C8_rewritten_attributes [OF sample_parse c, of int_str]
  obtain xml_root' where
    u: "update_xml_with_new_sprites int_literal int_str sample_root sample_catalog new
          = Inr xml_root'"
    and len: "length xml_root' = 5"
    and each: "\<forall>i<5.
        if tag (sample_root ! i) = ''SubTexture''
        then (\<exists>s idx.
           sprite_of_element int_literal (sample_root ! i) = Inr s \<and>
           idx < length sample_catalog \<and> sprite_eq (sample_catalog ! idx) s \<and>
           (\<forall>j<idx. \<not> sprite_eq (sample_catalog ! j) s) \<and>
           idx < length new \<and>
           tag (xml_root' ! i) = ''SubTexture'' \<and>
           attrib (xml_root' ! i) ''x'' = Some (int_str (x (new ! idx))) \<and>
           attrib (xml_root' ! i) ''y'' = Some (int_str (y (new ! idx))) \<and>
           attrib (xml_root' ! i) ''width'' = Some (int_str (width (new ! idx))) \<and>
           attrib (xml_root' ! i) ''height'' = Some (int_str (height (new ! idx))) \<and>
           attrib (xml_root' ! i) ''frameX'' = None \<and>
           attrib (xml_root' ! i) ''frameY'' = None \<and>
           attrib (xml_root' ! i) ''frameWidth'' = None \<and>
           attrib (xml_root' ! i) ''frameHeight'' = None \<and>
           attrib (xml_root' ! i) ''rotated'' = None \<and>
           (\<forall>k. k \<notin> {''x'', ''y'', ''width'', ''height'', ''frameX'', ''frameY'',
                       ''frameWidth'', ''frameHeight'', ''rotated''} \<longrightarrow>
                attrib (xml_root' ! i) k = attrib (sample_root ! i) k))
        else xml_root' ! i = sample_root ! i"
    unfolding new_def [symmetric] sample_root_length by blast
  from each [rule_format, of 0] t0 have r0: "xml_root' ! 0 = sample_root ! 0" by simp
  from each [rule_format, of 2] t2 e2 obtain idx where
    i: "idx < 3" "sprite_eq (sample_catalog ! idx)
       \<lparr>name = Some ''idle1'', x = 8, y = 0, width = 4, height = 3,
        pos_x = 0, pos_y = -1, rotated = True\<rparr>"
    and a: "attrib (xml_root' ! 2) ''x'' = Some (int_str (x (new ! idx)))"
      "attrib (xml_root' ! 2) ''y'' = Some (int_str (y (new ! idx)))"
      "attrib (xml_root' ! 2) ''width'' = Some (int_str (width (new ! idx)))"
      "attrib (xml_root' ! 2) ''height'' = Some (int_str (height (new ! idx)))"
      "attrib (xml_root' ! 2) ''frameX'' = None"
      "attrib (xml_root' ! 2) ''frameY'' = None"
      "attrib (xml_root' ! 2) ''frameWidth'' = None"
      "attrib (xml_root' ! 2) ''frameHeight'' = None"
      "attrib (xml_root' ! 2) ''rotated'' = None"
    and k: "\<forall>k. k \<notin> {''x'', ''y'', ''width'', ''height'', ''frameX'', ''frameY'',
                       ''frameWidth'', ''frameHeight'', ''rotated''} \<longrightarrow>
                attrib (xml_root' ! 2) k = attrib (sample_root ! 2) k"
    by (auto simp: sample_catalog_length)
  have idx: "idx = Suc 0" using i by (rule sample_lookup_1)
  from k n2 have nm: "attrib (xml_root' ! 2) ''name'' = Some ''idle1''" by simp
  have m: "map (attrib (xml_root' ! 2))
        [''name'', ''x'', ''y'', ''width'', ''height'',
         ''frameX'', ''frameY'', ''frameWidth'', ''frameHeight'', ''rotated''] =
        [Some ''idle1'', Some ''16'', Some ''0'', Some ''16'', Some ''20'',
         None, None, None, None, None]"
    using a nm unfolding idx new1 by (simp add: int_str_sample)
  note c' = c [folded new_def]
  show ?thesis
    by (intro exI conjI) (rule c' u len r0 m)+
qed

subsection \<open>C9: the lookup never fails\<close>

text \<open>
  Claim C9. When \<^verbatim>\<open>parse_sprites\<close> has returned the catalog, the record derived again
  from any \<^verbatim>\<open>SubTexture\<close> element of the same document is found in the catalog by
  \<^verbatim>\<open>index\<close>, at an entry equal to it by geometry, so the rewrite of an element never
  raises the \<^verbatim>\<open>ValueError\<close> of \<^verbatim>\<open>index\<close>, whatever the list of new records. The whole run
  raises neither that \<^verbatim>\<open>ValueError\<close> nor an \<^verbatim>\<open>IndexError\<close>.
\<close>

theorem C9_lookup_succeeds:
  assumes p: "parse_sprites int_of xml_root = Inr (cat, mw, mh)"
  shows "(\<forall>e \<in> set (findall xml_root ''SubTexture'').
           (\<exists>s idx. sprite_of_element int_of e = Inr s \<and> index_of cat s = Some idx \<and>
              idx < length cat \<and> sprite_eq (cat ! idx) s) \<and>
           rewrite_sub_texture int_of str_of cat new e \<noteq> Inl ValueError_not_in_list)
     \<and> generate_new_spritesheet lib int_of str_of xml_root \<noteq> Inl ValueError_not_in_list
     \<and> generate_new_spritesheet lib int_of str_of xml_root \<noteq> Inl IndexError"
proof (intro conjI ballI)
  fix e assume e: "e \<in> set (findall xml_root ''SubTexture'')"
  from lookup_succeeds[OF p e]
  show "\<exists>s idx. sprite_of_element int_of e = Inr s \<and> index_of cat s = Some idx \<and>
              idx < length cat \<and> sprite_eq (cat ! idx) s" by blast
  from lookup_succeeds[OF p e]
  show "rewrite_sub_texture int_of str_of cat new e \<noteq> Inl ValueError_not_in_list"
    by (auto dest!: rewrite_sub_texture_Inl)
next
  have "err \<noteq> ValueError_not_in_list \<and> err \<noteq> IndexError"
    if g: "generate_new_spritesheet lib int_of str_of xml_root = Inl err" for err
  proof (cases "create_new_spritesheet lib cat mw mh")
    case (Inl a)
    with g p have "a = err" by (simp add: generate_new_spritesheet_def)
    with Inl create_new_spritesheet_errors [of lib cat mw mh err] show ?thesis
      by auto
  next
    case (Inr res)
    obtain img new' where res: "res = (img, new')" by (cases res) auto
    from Inr have len: "length new' = length cat"
      unfolding res by (rule create_new_spritesheet_length)
    from g p Inr have "update_xml_with_new_sprites int_of str_of xml_root cat new' = Inl err"
      by (simp add: generate_new_spritesheet_def res bindE_eq_Inl)
    from update_xml_Inl[OF this] obtain e where
      e: "e \<in> set (findall xml_root ''SubTexture'')"
      and re: "rewrite_sub_texture int_of str_of cat new' e = Inl err" by blast
    from lookup_succeeds[OF p e] rewrite_sub_texture_Inl[OF re] len
    show ?thesis by auto
  qed
  then show "generate_new_spritesheet lib int_of str_of xml_root \<noteq> Inl ValueError_not_in_list"
    and "generate_new_spritesheet lib int_of str_of xml_root \<noteq> Inl IndexError"
    by blast+
qed

theorem C9_lookup_succeeds_witness:
  "(\<exists>s idx. sprite_of_element int_literal (sample_root ! 4) = Inr s \<and>
        index_of sample_catalog s = Some idx \<and> idx < length sample_catalog \<and>
        sprite_eq (sample_catalog ! idx) s)
   \<and> generate_new_spritesheet checking_library int_literal int_str sample_root \<noteq> Inl ValueError_not_in_list
   \<and> generate_new_spritesheet checking_library int_literal int_str sample_root \<noteq> Inl IndexError"
proof -
  have "sample_root ! 4 \<in> set (findall sample_root ''SubTexture'')"
    by (simp add: sample_root_def findall_def sub_texture_of_def)
  with C9_lookup_succeeds [OF sample_parse, of int_str "[]" checking_library] show ?thesis
    by blast
qed

subsection \<open>C10: the names\<close>

text \<open>
  Claim C10. Whenever \<^verbatim>\<open>create_new_spritesheet\<close> returns, the list of new records is as
  long as the catalog, and the name of the new record \<open>i\<close> is the name of the catalog
  entry \<open>i\<close>. The function returns exactly when the computation of the side raises
  nothing and no call into the image library raises.
\<close>

theorem C10_names_carried:
  "(create_new_spritesheet lib cat cell_w cell_h = Inr (img, new) \<longrightarrow>
      length new = length cat \<and>
      (\<forall>i<length cat. name (new ! i) = name (cat ! i)) \<and>
      map name new = map name cat)
   \<and> ((\<exists>img new. create_new_spritesheet lib cat cell_w cell_h = Inr (img, new)) \<longleftrightarrow>
        (\<exists>r. math_ceil_sqrt (int (length cat) * cell_w * cell_h) = Inr r \<and>
             calls_return lib (next_power_of_two r) cell_w cell_h cat))"
proof (intro conjI impI)
  assume "create_new_spritesheet lib cat cell_w cell_h = Inr (img, new)"
  then obtain r where
    new: "new = map (\<lambda>i. new_Sprite (name (cat ! i))
                  (fst (grid_cursor (next_power_of_two r) cell_w cell_h i))
                  (snd (grid_cursor (next_power_of_two r) cell_w cell_h i))
                  cell_w cell_h 0 0 False) [0..<length cat]"
    unfolding create_new_spritesheet_Inr_iff by blast
  show "length new = length cat" by (simp add: new)
  show "\<forall>i<length cat. name (new ! i) = name (cat ! i)" by (simp add: new)
  show "map name new = map name cat" by (simp add: new o_def map_nth_comp)
next
  show "(\<exists>img new. create_new_spritesheet lib cat cell_w cell_h = Inr (img, new)) \<longleftrightarrow>
        (\<exists>r. math_ceil_sqrt (int (length cat) * cell_w * cell_h) = Inr r \<and>
             calls_return lib (next_power_of_two r) cell_w cell_h cat)"
    by (rule create_new_spritesheet_returns_iff)
qed

theorem C10_names_carried_witness:
  "\<exists>img new.
      create_new_spritesheet checking_library sample_catalog 16 20 = Inr (img, new) \<and>
      map name new = [Some ''idle0'', Some ''idle1'', Some ''idle2'']"
proof -
  note t = C10_names_carried [of checking_library sample_catalog 16 20]
  from t sample_returns_condition obtain img new where
    c: "create_new_spritesheet checking_library sample_catalog 16 20 = Inr (img, new)"
    by blast
  with t [of img new] have n: "map name new = map name sample_catalog" by blast
  from n have m: "map name new = [Some ''idle0'', Some ''idle1'', Some ''idle2'']"
    by (simp add: sample_catalog_def)
  show ?thesis
    by (intro conjI exI [of _ img] exI [of _ new]) (rule c m)+
qed

end
